theory Spec2Isabelle
  imports Complex_Main
begin

section \<open>Values and errors\<close>

text \<open>
  The Python of \<^verbatim>\<open>thermo/gpumd/calc.py\<close> and \<^verbatim>\<open>thermo/gpumd/preproc.py\<close> computes with
  doubles. A finite double is modelled by the real number it denotes: rounding, overflow
  and the sign of zero are not modelled, except for the unit scaler, which is modelled a
  second time on binary64 doubles, with rounding, overflow and underflow: whether its value
  decreases strictly is a question of rounding. Every exception the code can raise is a
  value of \<open>error\<close>; a \<open>ValueError\<close> carries the message of the source.
\<close>

datatype error = ValueError string | ZeroDivisionError | IndexError | KeyError string | AxisError

subsection \<open>The unit scaler \<^verbatim>\<open>__scale_gpumd_tc\<close>\<close>

text \<open>
  \<^verbatim>\<open>one * two * three / (T * T * vol)\<close> on Python floats, in exact arithmetic: the
  division raises \<^verbatim>\<open>ZeroDivisionError\<close> when the divisor is zero.
\<close>

definition scale_gpumd_tc :: "real \<Rightarrow> real \<Rightarrow> error + real" where
  "scale_gpumd_tc vol T =
     (let one = 1.602176634 / 10 ^ 19 * (9.651599 * 10 ^ 7);
          two = 1 / 10 ^ 15;
          three = 10 ^ 30 / (8.617333262145 / 10 ^ 5)
      in if T * T * vol = 0 then Inl ZeroDivisionError
         else Inr (one * two * three / (T * T * vol)))"

subsection \<open>Binary64 arithmetic and the unit scaler on doubles\<close>

text \<open>
  A Python float is an IEEE 754 binary64 number: a finite value, an infinity (\<open>Infty s\<close>,
  negative when \<open>s\<close> holds) or a NaN. The two zeros are one value here, \<open>Fin 0\<close>: they
  compare equal, and as a divisor either raises.
\<close>

datatype double = Fin real | Infty bool | Nan

text \<open>The nearest integer, a tie going to the even one.\<close>

definition rne :: "real \<Rightarrow> int" where
  "rne x =
     (let n = \<lfloor>x\<rfloor>; r = x - of_int n
      in if r < 1 / 2 then n else if 1 / 2 < r then n + 1 else if even n then n else n + 1)"

text \<open>
  The binary exponent of a magnitude \<open>x\<close>: the \<open>e\<close> with \<open>2\<^sup>e \<le> x < 2\<^sup>e\<^sup>+\<^sup>1\<close>, kept within the
  exponents of binary64, \<open>-1022\<close> (where the subnormal numbers start) and \<open>1023\<close>.
\<close>

function exponent_up :: "real \<Rightarrow> int \<Rightarrow> int" where
  "exponent_up x e = (if 2 \<le> x \<and> e < 1023 then exponent_up (x / 2) (e + 1) else e)"
  by pat_completeness auto
termination
  by (relation "measure (\<lambda>(x, e). nat (1023 - e))") auto

function exponent_down :: "real \<Rightarrow> int \<Rightarrow> int" where
  "exponent_down x e = (if x < 1 \<and> - 1022 < e then exponent_down (2 * x) (e - 1) else e)"
  by pat_completeness auto
termination
  by (relation "measure (\<lambda>(x, e). nat (e + 1022))") auto

declare exponent_up.simps [simp del] exponent_down.simps [simp del]

definition exponent :: "real \<Rightarrow> int" where
  "exponent x = (if 1 \<le> x then exponent_up x 0 else exponent_down x 0)"

text \<open>
  Rounding to binary64, to nearest with ties to even: the doubles around \<open>x\<close> are the
  multiples of \<open>ulp x\<close>, a significand of 53 bits at the exponent of \<open>x\<close>. A significand that
  reaches \<open>2\<^sup>5\<^sup>3\<close> at the top exponent is a value of \<open>2\<^sup>1\<^sup>0\<^sup>2\<^sup>4\<close> or more: the result overflows
  to an infinity. Below \<open>2\<^sup>-\<^sup>1\<^sup>0\<^sup>2\<^sup>2\<close> the spacing stays \<open>2\<^sup>-\<^sup>1\<^sup>0\<^sup>7\<^sup>4\<close> (gradual underflow).
\<close>

definition ulp :: "real \<Rightarrow> real" where
  "ulp x = 2 powi (exponent \<bar>x\<bar> - 52)"

definition significand :: "real \<Rightarrow> int" where
  "significand x = rne (x / ulp x)"

definition nearest :: "real \<Rightarrow> real" where
  "nearest x = of_int (significand x) * ulp x"

definition fl :: "real \<Rightarrow> double" where
  "fl x = (if 2 ^ 53 \<le> \<bar>significand x\<bar> \<and> exponent \<bar>x\<bar> = 1023 then Infty (x < 0)
           else Fin (nearest x))"

text \<open>
  \<^verbatim>\<open>a * b\<close> on floats; the quotient \<^verbatim>\<open>a / b\<close> of the hardware for a divisor that is not
  zero; and Python's \<^verbatim>\<open>a / b\<close>, which raises \<^verbatim>\<open>ZeroDivisionError\<close> for a zero divisor.
\<close>

fun float_mul :: "double \<Rightarrow> double \<Rightarrow> double" where
  "float_mul (Fin a) (Fin b) = fl (a * b)"
| "float_mul (Fin a) (Infty s) = (if a = 0 then Nan else Infty (s \<noteq> (a < 0)))"
| "float_mul (Infty s) (Fin b) = (if b = 0 then Nan else Infty (s \<noteq> (b < 0)))"
| "float_mul (Infty s) (Infty t) = Infty (s \<noteq> t)"
| "float_mul Nan _ = Nan"
| "float_mul _ Nan = Nan"

fun float_quotient :: "double \<Rightarrow> double \<Rightarrow> double" where
  "float_quotient (Fin a) (Fin b) = fl (a / b)"
| "float_quotient (Fin a) (Infty s) = Fin 0"
| "float_quotient (Infty s) (Fin b) = Infty (s \<noteq> (b < 0))"
| "float_quotient (Infty s) (Infty t) = Nan"
| "float_quotient Nan _ = Nan"
| "float_quotient _ Nan = Nan"

definition float_truediv :: "double \<Rightarrow> double \<Rightarrow> error + double" where
  "float_truediv a b = (if b = Fin 0 then Inl ZeroDivisionError else Inr (float_quotient a b))"

text \<open>\<^verbatim>\<open>a <= b\<close> on floats: false as soon as one side is a NaN.\<close>

fun float_le :: "double \<Rightarrow> double \<Rightarrow> bool" where
  "float_le (Fin a) (Fin b) = (a \<le> b)"
| "float_le (Fin a) (Infty t) = (\<not> t)"
| "float_le (Infty s) (Fin b) = s"
| "float_le (Infty s) (Infty t) = (if t then s else True)"
| "float_le Nan _ = False"
| "float_le _ Nan = False"

text \<open>
  \<^verbatim>\<open>__scale_gpumd_tc\<close> as the interpreter computes it, for float arguments: every decimal
  literal is the double nearest to it, every product and quotient is rounded, in the order
  of the source: \<^verbatim>\<open>((one * two) * three) / ((T * T) * vol)\<close>.
\<close>

definition scale_gpumd_tc_double :: "double \<Rightarrow> double \<Rightarrow> error + double" where
  "scale_gpumd_tc_double vol T =
     (let one = float_mul (fl (1.602176634 / 10 ^ 19)) (fl (9.651599 * 10 ^ 7))
      in (case float_truediv (fl 1) (fl (10 ^ 15)) of
            Inl e \<Rightarrow> Inl e
          | Inr two \<Rightarrow>
              (case float_truediv (fl (10 ^ 30)) (fl (8.617333262145 / 10 ^ 5)) of
                 Inl e \<Rightarrow> Inl e
               | Inr three \<Rightarrow>
                   float_truediv (float_mul (float_mul one two) three)
                     (float_mul (float_mul T T) vol))))"

subsection \<open>NumPy division\<close>

text \<open>
  NumPy's elementwise true division never raises: a zero divisor gives \<^verbatim>\<open>nan\<close> for a zero
  dividend and an infinity otherwise (with a warning only). The result of such a division
  is an \<open>npfloat\<close>; the sign of an infinity is not tracked.
\<close>

datatype npfloat = Finite real | Infinity | NaN

definition np_divide :: "real \<Rightarrow> real \<Rightarrow> npfloat" where
  "np_divide a b = (if b \<noteq> 0 then Finite (a / b) else if a = 0 then NaN else Infinity)"

text \<open>An array entry times, and over, a finite Python scalar.\<close>

fun times_scalar :: "npfloat \<Rightarrow> real \<Rightarrow> npfloat" where
  "times_scalar (Finite a) c = Finite (a * c)"
| "times_scalar Infinity c = (if c = 0 then NaN else Infinity)"
| "times_scalar NaN c = NaN"

fun divide_scalar :: "npfloat \<Rightarrow> real \<Rightarrow> npfloat" where
  "divide_scalar (Finite a) c = np_divide a c"
| "divide_scalar Infinity c = Infinity"
| "divide_scalar NaN c = NaN"

text \<open>
  Elementwise operation on two one-dimensional arrays under NumPy's broadcasting: equal
  lengths, or one operand of length 1, which is then repeated.
\<close>

definition broadcast2 :: "('a \<Rightarrow> 'b \<Rightarrow> 'c) \<Rightarrow> 'a list \<Rightarrow> 'b list \<Rightarrow> error + 'c list" where
  "broadcast2 f xs ys =
     (if length xs = length ys then Inr (map2 f xs ys)
      else if length xs = 1 then Inr (map (f (hd xs)) ys)
      else if length ys = 1 then Inr (map (\<lambda>x. f x (hd ys)) xs)
      else Inl (ValueError ''operands could not be broadcast together''))"

subsection \<open>The spectral converter \<^verbatim>\<open>hnemd_spectral_kappa\<close>\<close>

text \<open>
  The record of one SHC run, as \<^verbatim>\<open>load_shc\<close> delivers it: a dictionary of one-dimensional
  arrays. The function mutates the dictionary and has no \<^verbatim>\<open>return\<close> statement: the model
  returns the outcome (the error raised, or the returned value, \<open>None\<close> for Python's
  \<^verbatim>\<open>None\<close>) together with the dictionary as the call leaves it.
\<close>

type_synonym shc = "string \<rightharpoonup> npfloat list"

definition hnemd_spectral_kappa ::
  "shc \<Rightarrow> real \<Rightarrow> real \<Rightarrow> real \<Rightarrow> (error + shc option) \<times> shc" where
  "hnemd_spectral_kappa shc Fe T V =
     (case (shc ''J_in'', shc ''J_out'') of
        (Some J_in, Some J_out) \<Rightarrow>
          (let convert = 1602.17662;
               shc1 = shc(''k_in'' \<mapsto> map (\<lambda>j. divide_scalar (times_scalar j convert) (Fe * T * V)) J_in);
               shc2 = shc1(''k_out'' \<mapsto> map (\<lambda>j. divide_scalar (times_scalar j convert) (Fe * T * V)) J_out)
           in (Inr None, shc2))
      | _ \<Rightarrow>
          (Inl (ValueError ''shc argument must be from load_shc and contain in/out heat currents.''), shc))"

subsection \<open>The cumulative integrator and \<^verbatim>\<open>running_ave\<close>\<close>

text \<open>
  \<^verbatim>\<open>scipy.integrate.cumtrapz(y, x, initial=0)\<close> on one-dimensional arrays:
  \<^verbatim>\<open>d = np.diff(x)\<close>, a \<^verbatim>\<open>ValueError\<close> unless \<^verbatim>\<open>len(d) == len(y) - 1\<close>, then
  \<^verbatim>\<open>np.cumsum(d * (y[1:] + y[:-1]) / 2.0)\<close> with the initial value put in front.
\<close>

definition diff :: "real list \<Rightarrow> real list" where
  "diff x = map2 (\<lambda>b a. b - a) (tl x) (butlast x)"

fun cumsum_from :: "real \<Rightarrow> real list \<Rightarrow> real list" where
  "cumsum_from s [] = []"
| "cumsum_from s (z # zs) = (s + z) # cumsum_from (s + z) zs"

definition cumsum :: "real list \<Rightarrow> real list" where
  "cumsum zs = cumsum_from 0 zs"

definition cumtrapz :: "real list \<Rightarrow> real list \<Rightarrow> error + real list" where
  "cumtrapz y x =
     (let d = diff x in
      if int (length d) \<noteq> int (length y) - 1
      then Inl (ValueError ''If given, length of x along axis must be the same as y.'')
      else Inr (0 # cumsum (map2 (\<lambda>d s. d * s / 2) d (map2 (+) (tl y) (butlast y)))))"

definition running_ave :: "real list \<Rightarrow> real list \<Rightarrow> error + npfloat list" where
  "running_ave kappa time =
     (case cumtrapz kappa time of
        Inl e \<Rightarrow> Inl e
      | Inr F \<Rightarrow> broadcast2 np_divide F time)"

text \<open>
  The running trapezoidal integral as the specification words it:
  \<open>F(n) = \<integral> f dx\<close> from \<open>x\<^sub>0\<close> to \<open>x\<^sub>n\<close> by the trapezoidal rule, \<open>F(0) = 0\<close>.
\<close>

definition trapezoid_integral :: "real list \<Rightarrow> real list \<Rightarrow> nat \<Rightarrow> real" where
  "trapezoid_integral f x n = (\<Sum>j<n. (x ! Suc j - x ! j) * (f ! Suc j + f ! j) / 2)"


subsection \<open>Group assignment: \<^verbatim>\<open>__get_group\<close> and \<^verbatim>\<open>assign_groups\<close>\<close>

text \<open>
  Of an ASE atom the code reads the position (three coordinates) and writes the tag.
  \<^verbatim>\<open>__get_group\<close> walks \<^verbatim>\<open>enumerate(split[:-1])\<close>; the message it prints on the
  out-of-bounds paths goes to standard output and is not modelled.
\<close>

record atom =
  position :: "real \<times> real \<times> real"
  tag :: int

definition coordinate :: "string \<Rightarrow> real \<times> real \<times> real \<Rightarrow> real" where
  "coordinate direction pos =
     (case pos of (p0, p1, p2) \<Rightarrow>
        if direction = ''x'' then p0 else if direction = ''y'' then p1 else p2)"

function get_group_loop :: "real list \<Rightarrow> real \<Rightarrow> nat \<Rightarrow> int" where
  "get_group_loop split d i =
     (if Suc i < length split
      then (if i = 0 \<and> d < split ! i then - 1
            else if split ! i \<le> d \<and> d < split ! Suc i then int i
            else get_group_loop split d (Suc i))
      else - 1)"
  by pat_completeness auto
termination
  by (relation "measure (\<lambda>(split, d, i). length split - i)") auto

declare get_group_loop.simps [simp del]

definition get_group :: "real list \<Rightarrow> real \<times> real \<times> real \<Rightarrow> string \<Rightarrow> int" where
  "get_group split pos direction = get_group_loop split (coordinate direction pos) 0"

text \<open>
  \<^verbatim>\<open>counts[i] += 1\<close> on a Python list: a negative index counts from the end, an index out
  of range raises \<^verbatim>\<open>IndexError\<close>.
\<close>

definition list_increment :: "int list \<Rightarrow> int \<Rightarrow> error + int list" where
  "list_increment counts i =
     (let k = (if i < 0 then i + int (length counts) else i)
      in if k < 0 \<or> int (length counts) \<le> k then Inl IndexError
         else Inr (counts[nat k := counts ! nat k + 1]))"

text \<open>
  The loop of \<^verbatim>\<open>assign_groups\<close> over the atoms. The atoms are updated in place: the model
  returns them as the call leaves them, next to the outcome (the counts, or the error
  raised by \<^verbatim>\<open>counts[i] += 1\<close>, which comes after the tag of that atom has been set).
\<close>

fun assign_groups_loop ::
  "real list \<Rightarrow> string \<Rightarrow> int list \<Rightarrow> atom list \<Rightarrow> (error + int list) \<times> atom list" where
  "assign_groups_loop split direction counts [] = (Inr counts, [])"
| "assign_groups_loop split direction counts (a # atoms) =
     (let i = get_group split (position a) direction;
          a' = a\<lparr>tag := i\<rparr>
      in case list_increment counts i of
           Inl e \<Rightarrow> (Inl e, a' # atoms)
         | Inr counts' \<Rightarrow>
             (case assign_groups_loop split direction counts' atoms of
                (r, atoms') \<Rightarrow> (r, a' # atoms')))"

definition assign_groups ::
  "real list \<Rightarrow> atom list \<Rightarrow> string \<Rightarrow> (error + int list) \<times> atom list" where
  "assign_groups split atoms direction =
     assign_groups_loop split direction (replicate (length split - 1) 0) atoms"

text \<open>The position that a Python index \<open>i\<close> denotes in a list of \<open>n\<close> elements.\<close>

definition slot :: "nat \<Rightarrow> int \<Rightarrow> nat" where
  "slot n i = nat (if i < 0 then i + int n else i)"

text \<open>
  An atom is out of bounds when its coordinate along the direction is below the first
  boundary or not below the last.
\<close>

definition out_of_bounds :: "real list \<Rightarrow> string \<Rightarrow> atom \<Rightarrow> bool" where
  "out_of_bounds split direction a =
     (coordinate direction (position a) < split ! 0
        \<or> last split \<le> coordinate direction (position a))"


subsection \<open>Arrays and the modal heat-flux dataset\<close>

text \<open>
  A NumPy array of dimension 0, 1 or 2; a two-dimensional array is the list of its rows
  (all of one length; an array without rows carries no column count). The dataset is the
  dictionary that \<^verbatim>\<open>load_heatmode\<close> delivers and that \<^verbatim>\<open>get_gkma_kappa\<close> extends in place.
\<close>

datatype ndarray = Arr0 real | Arr1 "real list" | Arr2 "real list list"

type_synonym dataset = "string \<rightharpoonup> ndarray"

definition and_then :: "error + 'a \<Rightarrow> ('a \<Rightarrow> error + 'b) \<Rightarrow> error + 'b" where
  "and_then m f = (case m of Inl e \<Rightarrow> Inl e | Inr x \<Rightarrow> f x)"

fun collect :: "(error + 'a) list \<Rightarrow> error + 'a list" where
  "collect [] = Inr []"
| "collect (m # ms) = and_then m (\<lambda>x. and_then (collect ms) (\<lambda>xs. Inr (x # xs)))"

text \<open>\<^verbatim>\<open>data[key]\<close>.\<close>

definition lookup :: "dataset \<Rightarrow> string \<Rightarrow> error + ndarray" where
  "lookup d key = (case d key of None \<Rightarrow> Inl (KeyError key) | Some a \<Rightarrow> Inr a)"

text \<open>\<^verbatim>\<open>a + b\<close> on arrays, with broadcasting.\<close>

fun np_add :: "ndarray \<Rightarrow> ndarray \<Rightarrow> error + ndarray" where
  "np_add (Arr0 a) (Arr0 b) = Inr (Arr0 (a + b))"
| "np_add (Arr0 a) (Arr1 v) = Inr (Arr1 (map ((+) a) v))"
| "np_add (Arr0 a) (Arr2 B) = Inr (Arr2 (map (map ((+) a)) B))"
| "np_add (Arr1 u) (Arr0 b) = Inr (Arr1 (map (\<lambda>x. x + b) u))"
| "np_add (Arr2 A) (Arr0 b) = Inr (Arr2 (map (map (\<lambda>x. x + b)) A))"
| "np_add (Arr1 u) (Arr1 v) = and_then (broadcast2 (+) u v) (\<lambda>w. Inr (Arr1 w))"
| "np_add (Arr1 u) (Arr2 B) =
     and_then (collect (map (\<lambda>r. broadcast2 (+) u r) B)) (\<lambda>C. Inr (Arr2 C))"
| "np_add (Arr2 A) (Arr1 v) =
     and_then (collect (map (\<lambda>r. broadcast2 (+) r v) A)) (\<lambda>C. Inr (Arr2 C))"
| "np_add (Arr2 A) (Arr2 B) =
     and_then (broadcast2 (broadcast2 (+)) A B) (\<lambda>rows. and_then (collect rows) (\<lambda>C. Inr (Arr2 C)))"

text \<open>\<^verbatim>\<open>np.sum(a, axis=0)\<close>.\<close>

fun np_sum_axis0 :: "ndarray \<Rightarrow> error + ndarray" where
  "np_sum_axis0 (Arr0 a) = Inl AxisError"
| "np_sum_axis0 (Arr1 v) = Inr (Arr0 (sum_list v))"
| "np_sum_axis0 (Arr2 A) = Inr (Arr1 (map sum_list (transpose A)))"

text \<open>\<^verbatim>\<open>a[m, :]\<close>, read.\<close>

fun get_row :: "ndarray \<Rightarrow> nat \<Rightarrow> error + real list" where
  "get_row (Arr2 A) m = (if m < length A then Inr (A ! m) else Inl IndexError)"
| "get_row _ m = Inl IndexError"

text \<open>
  \<^verbatim>\<open>a[m, :] = v\<close> for a one-dimensional \<open>v\<close>: the value must have the length of the row, or
  length 1, and is then repeated.
\<close>

fun set_row :: "ndarray \<Rightarrow> nat \<Rightarrow> real list \<Rightarrow> error + ndarray" where
  "set_row (Arr2 A) m v =
     (if \<not> m < length A then Inl IndexError
      else if length v = length (A ! m) then Inr (Arr2 (A[m := v]))
      else if length v = 1 then Inr (Arr2 (A[m := replicate (length (A ! m)) (hd v)]))
      else Inl (ValueError ''could not broadcast input array''))"
| "set_row _ m v = Inl IndexError"

text \<open>
  \<^verbatim>\<open>np.linspace(start, stop, num)\<close>: \<open>num\<close> evenly spaced samples, the end point included;
  a negative \<open>num\<close> raises \<^verbatim>\<open>ValueError\<close>.
\<close>

definition linspace :: "real \<Rightarrow> real \<Rightarrow> int \<Rightarrow> error + real list" where
  "linspace start stop num =
     (if num < 0 then Inl (ValueError ''Number of samples must be non-negative.'')
      else if num = 1 then Inr [start]
      else Inr (map (\<lambda>k. start + real k * ((stop - start) / real_of_int (num - 1))) [0..<nat num]))"

text \<open>\<^verbatim>\<open>np.squeeze\<close> of a one-dimensional array: an array of length 1 loses its only axis.\<close>

definition squeeze :: "real list \<Rightarrow> ndarray" where
  "squeeze v = (case v of [x] \<Rightarrow> Arr0 x | _ \<Rightarrow> Arr1 v)"

text \<open>\<^verbatim>\<open>a / c\<close> for a non-zero Python float \<open>c\<close>.\<close>

fun np_divide_by :: "ndarray \<Rightarrow> real \<Rightarrow> ndarray" where
  "np_divide_by (Arr0 a) c = Arr0 (a / c)"
| "np_divide_by (Arr1 v) c = Arr1 (map (\<lambda>x. x / c) v)"
| "np_divide_by (Arr2 A) c = Arr2 (map (map (\<lambda>x. x / c)) A)"

text \<open>
  \<^verbatim>\<open>cumtrapz(y, x, initial=0)\<close> for a row \<open>y\<close> and the abscissa as the dataset holds it:
  an \<open>x\<close> that is not one-dimensional does not have the shape of \<open>y\<close>.
\<close>

fun cumtrapz_over :: "real list \<Rightarrow> ndarray \<Rightarrow> error + real list" where
  "cumtrapz_over y (Arr1 x) = cumtrapz y x"
| "cumtrapz_over y _ = Inl (ValueError ''If given, shape of x must be 1-D or the same as y.'')"

subsection \<open>Statements on the dataset\<close>

text \<open>
  A statement of \<^verbatim>\<open>get_gkma_kappa\<close> either raises, and leaves the dataset as it found it,
  or updates the dataset. A sequence of statements stops at the first that raises; the
  dataset then keeps what the statements before have written.
\<close>

type_synonym stmt = "dataset \<Rightarrow> (error + unit) \<times> dataset"

definition atomic :: "(dataset \<Rightarrow> error + dataset) \<Rightarrow> stmt" where
  "atomic f d = (case f d of Inl e \<Rightarrow> (Inl e, d) | Inr d' \<Rightarrow> (Inr (), d'))"

fun run :: "stmt list \<Rightarrow> stmt" where
  "run [] d = (Inr (), d)"
| "run (s # ss) d = (case s d of (Inl e, d') \<Rightarrow> (Inl e, d') | (Inr u, d') \<Rightarrow> run ss d')"

text \<open>\<^verbatim>\<open>data[key] = np.zeros((nbins, size))\<close>.\<close>

definition allocate :: "string \<Rightarrow> int \<Rightarrow> int \<Rightarrow> stmt" where
  "allocate key nbins sz =
     atomic (\<lambda>d. if nbins < 0 \<or> sz < 0 then Inl (ValueError ''negative dimensions are not allowed'')
                 else Inr (d(key \<mapsto> Arr2 (replicate (nat nbins) (replicate (nat sz) 0)))))"

text \<open>
  The correlator \<^verbatim>\<open>corr\<close> of \<^verbatim>\<open>thermo.math.correlate\<close> is not among the sources: it is a
  parameter, a function of a row, the reference series and the maximal lag that raises or
  returns a one-dimensional array (what the assignment into a real array keeps of it).
\<close>

type_synonym correlator = "real list \<Rightarrow> ndarray \<Rightarrow> int \<Rightarrow> error + real list"

text \<open>\<^verbatim>\<open>data[ckey][m, :] = corr(data[src][m, :].astype(cplx), j.astype(cplx), max_lag)\<close>.\<close>

definition correlate_row :: "correlator \<Rightarrow> string \<Rightarrow> string \<Rightarrow> ndarray \<Rightarrow> int \<Rightarrow> nat \<Rightarrow> stmt" where
  "correlate_row corr ckey src j max_lag m =
     atomic (\<lambda>d.
       and_then (lookup d src) (\<lambda>a.
       and_then (get_row a m) (\<lambda>r.
       and_then (corr r j max_lag) (\<lambda>c.
       and_then (lookup d ckey) (\<lambda>t.
       and_then (set_row t m c) (\<lambda>t'. Inr (d(ckey \<mapsto> t'))))))))"

text \<open>
  \<^verbatim>\<open>data[kkey][m, :] = integrate.cumtrapz(data[ckey][m, :], data['tau'], initial=0) * scale\<close>.
\<close>

definition integrate_row :: "string \<Rightarrow> string \<Rightarrow> real \<Rightarrow> nat \<Rightarrow> stmt" where
  "integrate_row kkey ckey scale m =
     atomic (\<lambda>d.
       and_then (lookup d ckey) (\<lambda>a.
       and_then (get_row a m) (\<lambda>y.
       and_then (lookup d ''tau'') (\<lambda>x.
       and_then (cumtrapz_over y x) (\<lambda>F.
       and_then (lookup d kkey) (\<lambda>t.
       and_then (set_row t m (map (\<lambda>v. v * scale) F)) (\<lambda>t'. Inr (d(kkey \<mapsto> t')))))))))"

text \<open>\<^verbatim>\<open>data['tau'] = data['tau'] / 1.e6\<close>.\<close>

definition rescale_tau :: stmt where
  "rescale_tau = atomic (\<lambda>d. and_then (lookup d ''tau'') (\<lambda>t. Inr (d(''tau'' \<mapsto> np_divide_by t (10 ^ 6)))))"

subsection \<open>The modal conductivity engine \<^verbatim>\<open>get_gkma_kappa\<close>\<close>

text \<open>
  The block of the x direction, and of the y direction, which is the same text under other
  keys: the presence check, the reference series, the four arrays, the loop over the bins.
\<close>

definition in_out_direction ::
  "correlator \<Rightarrow> string \<Rightarrow> string \<Rightarrow> string \<Rightarrow> string \<Rightarrow> string \<Rightarrow> string \<Rightarrow> string
   \<Rightarrow> int \<Rightarrow> int \<Rightarrow> int \<Rightarrow> real \<Rightarrow> stmt" where
  "in_out_direction corr missing ji jo ci co ki ko nbins sz max_lag scale d =
     (if d ji = None \<or> d jo = None then (Inl (ValueError missing), d)
      else
        case and_then (lookup d ji) (\<lambda>a. and_then (lookup d jo) (\<lambda>b.
               and_then (np_add a b) np_sum_axis0)) of
          Inl e \<Rightarrow> (Inl e, d)
        | Inr j \<Rightarrow>
            run ([allocate ci nbins sz, allocate co nbins sz,
                  allocate ki nbins sz, allocate ko nbins sz]
                 @ concat (map (\<lambda>m. [correlate_row corr ci ji j max_lag m,
                                       integrate_row ki ci scale m,
                                       correlate_row corr co jo j max_lag m,
                                       integrate_row ko co scale m])
                             [0..<nat nbins])) d)"

text \<open>The block of the z direction: one channel.\<close>

definition single_direction ::
  "correlator \<Rightarrow> string \<Rightarrow> string \<Rightarrow> string \<Rightarrow> string \<Rightarrow> int \<Rightarrow> int \<Rightarrow> int \<Rightarrow> real \<Rightarrow> stmt" where
  "single_direction corr missing jm cm km nbins sz max_lag scale d =
     (if d jm = None then (Inl (ValueError missing), d)
      else
        case and_then (lookup d jm) np_sum_axis0 of
          Inl e \<Rightarrow> (Inl e, d)
        | Inr j \<Rightarrow>
            run ([allocate cm nbins sz, allocate km nbins sz]
                 @ concat (map (\<lambda>m. [correlate_row corr cm jm j max_lag m,
                                       integrate_row km cm scale m])
                             [0..<nat nbins])) d)"

definition x_direction :: "correlator \<Rightarrow> int \<Rightarrow> int \<Rightarrow> int \<Rightarrow> real \<Rightarrow> stmt" where
  "x_direction corr =
     in_out_direction corr ''x direction data is missing''
       ''jmxi'' ''jmxo'' ''corr_xmi_x'' ''corr_xmo_x'' ''kmxi'' ''kmxo''"

definition y_direction :: "correlator \<Rightarrow> int \<Rightarrow> int \<Rightarrow> int \<Rightarrow> real \<Rightarrow> stmt" where
  "y_direction corr =
     in_out_direction corr ''y direction data is missing''
       ''jmyi'' ''jmyo'' ''corr_ymi_y'' ''corr_ymo_y'' ''kmyi'' ''kmyo''"

definition z_direction :: "correlator \<Rightarrow> int \<Rightarrow> int \<Rightarrow> int \<Rightarrow> real \<Rightarrow> stmt" where
  "z_direction corr =
     single_direction corr ''z direction data is missing'' ''jmz'' ''corr_zm_z'' ''kmz''"

text \<open>\<^verbatim>\<open>if 'x' in directions: ...\<close>.\<close>

definition guarded :: "bool \<Rightarrow> stmt \<Rightarrow> stmt" where
  "guarded b s d = (if b then s d else (Inr (), d))"

text \<open>
  The lag of the last sample of the lag-time axis: \<^verbatim>\<open>int(np.floor(max_tau / srate))\<close>, with
  \<^verbatim>\<open>max_tau\<close> the total time when none is given and the given nanoseconds in femtoseconds
  otherwise.
\<close>

definition sampling_time :: "int \<Rightarrow> real \<Rightarrow> real" where
  "sampling_time sample_interval dt = real_of_int sample_interval * dt"

definition max_lag_of :: "int \<Rightarrow> real \<Rightarrow> int \<Rightarrow> real option \<Rightarrow> int" where
  "max_lag_of nsamples dt sample_interval max_tau =
     (let srate = sampling_time sample_interval dt;
          tot_time = srate * real_of_int (nsamples - 1);
          max_tau_fs = (case max_tau of None \<Rightarrow> tot_time | Some t \<Rightarrow> t * 10 ^ 6)
      in \<lfloor>max_tau_fs / srate\<rfloor>)"

text \<open>
  \<^verbatim>\<open>get_gkma_kappa\<close>. \<^verbatim>\<open>__get_direction\<close> of \<^verbatim>\<open>thermo/gpumd/data.py\<close> is not among the
  sources and is a parameter, as \<^verbatim>\<open>corr\<close> is. Writing the file (\<^verbatim>\<open>save\<close>, \<^verbatim>\<open>outputfile\<close>,
  \<^verbatim>\<open>directory\<close>) is not modelled. The outcome is the error raised or the value returned
  (\<open>None\<close> when \<^verbatim>\<open>return_data\<close> is false); the second component is the dataset as the call
  leaves it, also when it raises.
\<close>

definition get_gkma_kappa ::
  "correlator \<Rightarrow> (string \<Rightarrow> error + string) \<Rightarrow> dataset \<Rightarrow> int \<Rightarrow> int \<Rightarrow> real \<Rightarrow> int \<Rightarrow> real \<Rightarrow> real
   \<Rightarrow> real option \<Rightarrow> string \<Rightarrow> bool \<Rightarrow> (error + dataset option) \<times> dataset" where
  "get_gkma_kappa corr get_direction data nbins nsamples dt sample_interval T vol max_tau
       directions return_data =
     (case scale_gpumd_tc vol T of
        Inl e \<Rightarrow> (Inl e, data)
      | Inr scale \<Rightarrow>
          (if sampling_time sample_interval dt = 0 then (Inl ZeroDivisionError, data)
           else
             (let srate = sampling_time sample_interval dt;
                  max_lag = max_lag_of nsamples dt sample_interval max_tau;
                  sz = max_lag + 1
              in (case linspace 0 (real_of_int max_lag * srate) (max_lag + 1) of
                    Inl e \<Rightarrow> (Inl e, data)
                  | Inr ts \<Rightarrow>
                      (let d0 = data(''tau'' \<mapsto> squeeze ts)
                       in (case get_direction directions of
                             Inl e \<Rightarrow> (Inl e, d0)
                           | Inr dirs \<Rightarrow>
                               (case run [guarded (CHR ''x'' \<in> set dirs) (x_direction corr nbins sz max_lag scale),
                                          guarded (CHR ''y'' \<in> set dirs) (y_direction corr nbins sz max_lag scale),
                                          guarded (CHR ''z'' \<in> set dirs) (z_direction corr nbins sz max_lag scale),
                                          rescale_tau] d0 of
                                  (Inl e, d') \<Rightarrow> (Inl e, d')
                                | (Inr u, d') \<Rightarrow> (Inr (if return_data then Some d' else None), d'))))))))"

text \<open>
  Modelled from the spec: \<^verbatim>\<open>corr\<close> of \<^verbatim>\<open>thermo.math.correlate\<close>, which is not among the
  sources. Section 4.1: for two series of one length \<open>N\<close> and \<open>0 \<le> max_lag < N\<close>, the
  sequence of the \<open>C(k) = (1/(N-k)) \<cdot> \<Sum>\<^sub>t a[t] \<cdot> b[t+k]\<close>, \<open>t\<close> from 0 to \<open>N-k-1\<close>, for
  \<open>k\<close> from 0 to \<open>max_lag\<close> (real series: the conjugate does nothing); series of
  different lengths and a lag out of range are an InvalidInput error.
\<close>

definition corr_spec :: correlator where
  "corr_spec a j max_lag =
     (case j of
        Arr1 b \<Rightarrow>
          if length a \<noteq> length b \<or> max_lag < 0 \<or> int (length a) \<le> max_lag
          then Inl (ValueError ''InvalidInput'')
          else Inr (map (\<lambda>k. (\<Sum>t<length a - k. a ! t * b ! (t + k)) / real (length a - k))
                      [0..<nat (max_lag + 1)])
      | _ \<Rightarrow> Inl (ValueError ''InvalidInput''))"

text \<open>
  Modelled from the spec: \<^verbatim>\<open>__get_direction\<close> of \<^verbatim>\<open>thermo/gpumd/data.py\<close>, which is not
  among the sources. Section 4.4: the direction selector is any non-empty subset, in any
  order, of \<open>xyz\<close>; it yields these directions.
\<close>

definition get_direction_spec :: "string \<Rightarrow> error + string" where
  "get_direction_spec directions =
     (if directions \<noteq> [] \<and> distinct directions \<and> set directions \<subseteq> set ''xyz''
      then Inr directions else Inl (ValueError ''Invalid directions''))"


subsection \<open>Predicates on statements and datasets\<close>

text \<open>A statement keeps a key when no run of it changes the entry under that key.\<close>

definition keeps :: "string \<Rightarrow> stmt \<Rightarrow> bool" where
  "keeps key s = (\<forall>d. snd (s d) key = d key)"

definition preserves :: "(dataset \<Rightarrow> bool) \<Rightarrow> stmt \<Rightarrow> bool" where
  "preserves P s = (\<forall>d. P d \<longrightarrow> P (snd (s d)))"

text \<open>
  The entry under a key is a two-dimensional array of \<open>n\<close> rows of length \<open>w\<close>; and such
  an array whose rows start with 0.
\<close>

definition shaped :: "nat \<Rightarrow> nat \<Rightarrow> string \<Rightarrow> dataset \<Rightarrow> bool" where
  "shaped n w key d = (\<exists>A. d key = Some (Arr2 A) \<and> length A = n \<and> (\<forall>r\<in>set A. length r = w))"

definition zero_seeded :: "nat \<Rightarrow> nat \<Rightarrow> string \<Rightarrow> dataset \<Rightarrow> bool" where
  "zero_seeded n w key d =
     (\<exists>A. d key = Some (Arr2 A) \<and> length A = n \<and> (\<forall>r\<in>set A. length r = w \<and> (0 < w \<longrightarrow> r ! 0 = 0)))"

text \<open>What holds of the dataset while the loop over the bins of one channel runs.\<close>

definition channel_invariant :: "ndarray \<Rightarrow> nat \<Rightarrow> nat \<Rightarrow> string \<Rightarrow> string \<Rightarrow> dataset \<Rightarrow> bool" where
  "channel_invariant tau n w ckey kkey d =
     (d ''tau'' = Some tau \<and> shaped n w ckey d \<and> zero_seeded n w kkey d)"


subsection \<open>Datasets of the scenarios\<close>

text \<open>
  The end-to-end scenario of the specification (two mode bins, five samples, the channel
  \<^verbatim>\<open>jmz\<close> only), a dataset whose \<^verbatim>\<open>jmz\<close> has no mode bin, a dataset that lacks \<^verbatim>\<open>jmxi\<close>,
  and a dataset of one mode bin and one sample.
\<close>

definition end_to_end :: dataset where
  "end_to_end = [''jmz'' \<mapsto> Arr2 [[1, 0, - 1, 0, 1], [0, 1, 0, - 1, 0]]]"

definition no_bins :: dataset where
  "no_bins = [''jmz'' \<mapsto> Arr2 []]"

definition lacking_jmxi :: dataset where
  "lacking_jmxi = [''jmxo'' \<mapsto> Arr2 [[1, 2, 3]]]"

definition one_bin :: dataset where
  "one_bin = [''jmz'' \<mapsto> Arr2 [[1]]]"


section \<open>Properties of the unit scaler\<close>

text \<open>
  C3: wherever the quotient exists (\<open>T\<^sup>2 \<cdot> vol \<noteq> 0\<close>), the unit scaler returns exactly
  the product of the fixed literals \<open>(1.602176634e-19 \<times> 9.651599e7) \<times> (1/1e15) \<times>
  (1e30 / 8.617333262145e-5)\<close> divided by \<open>T\<^sup>2 \<cdot> vol\<close>; nothing but \<open>T\<close> and \<open>vol\<close> enters
  the value.
\<close>

theorem scale_gpumd_tc_closed_form:
  assumes "T\<^sup>2 * vol \<noteq> 0"
  shows "scale_gpumd_tc vol T =
           Inr ((1.602176634 / 10 ^ 19 * (9.651599 * 10 ^ 7)) * (1 / 10 ^ 15)
                  * (10 ^ 30 / (8.617333262145 / 10 ^ 5)) / (T\<^sup>2 * vol))"
  using assms by (simp add: scale_gpumd_tc_def power2_eq_square)

theorem scale_gpumd_tc_closed_form_witness:
  "(300::real)\<^sup>2 * 1000 \<noteq> 0 \<and>
   scale_gpumd_tc 1000 300 =
     Inr ((1.602176634 / 10 ^ 19 * (9.651599 * 10 ^ 7)) * (1 / 10 ^ 15)
            * (10 ^ 30 / (8.617333262145 / 10 ^ 5)) / (300\<^sup>2 * 1000))"
proof -
  have h: "(300::real)\<^sup>2 * 1000 \<noteq> 0" by simp
  show ?thesis using h scale_gpumd_tc_closed_form [OF h] by blast
qed

lemma scale_gpumd_tc_pos:
  assumes "0 < T" "0 < vol"
  shows "\<exists>s. scale_gpumd_tc vol T = Inr s \<and> 0 < s
           \<and> s * (T * T * vol) = 1.602176634 / 10 ^ 19 * (9.651599 * 10 ^ 7) * (1 / 10 ^ 15)
                                   * (10 ^ 30 / (8.617333262145 / 10 ^ 5))"
  using assms by (simp add: scale_gpumd_tc_def)

subsection \<open>The unit scaler on doubles\<close>

text \<open>Rounding to the nearest integer is monotone and fixes the integers.\<close>

lemma rne_of_int: "rne (of_int n) = n"
  by (simp add: rne_def)

lemma rne_bounds: "\<lfloor>x\<rfloor> \<le> rne x \<and> rne x \<le> \<lfloor>x\<rfloor> + 1"
  by (simp add: rne_def Let_def)

lemma rne_mono:
  assumes "x \<le> y"
  shows "rne x \<le> rne y"
proof (cases "\<lfloor>x\<rfloor> = \<lfloor>y\<rfloor>")
  case True
  have "x - of_int \<lfloor>y\<rfloor> \<le> y - of_int \<lfloor>y\<rfloor>" using assms by simp
  then show ?thesis unfolding rne_def Let_def True by auto
next
  case False
  have "\<lfloor>x\<rfloor> \<le> \<lfloor>y\<rfloor>" using assms by (rule floor_mono)
  then have "\<lfloor>x\<rfloor> + 1 \<le> \<lfloor>y\<rfloor>" using False by simp
  then show ?thesis using rne_bounds [of x] rne_bounds [of y] by linarith
qed

lemma rne_error: "\<bar>of_int (rne x) - x\<bar> \<le> 1 / 2"
proof -
  have "of_int \<lfloor>x\<rfloor> \<le> x" "x < of_int \<lfloor>x\<rfloor> + 1" by linarith+
  then show ?thesis by (auto simp: rne_def Let_def)
qed

lemma rne_le: "x \<le> of_int n \<Longrightarrow> rne x \<le> n"
  using rne_mono [of x "of_int n"] by (simp add: rne_of_int)

lemma rne_ge: "of_int n \<le> x \<Longrightarrow> n \<le> rne x"
  using rne_mono [of "of_int n" x] by (simp add: rne_of_int)

text \<open>
  The exponent brackets the magnitude: \<open>2\<^sup>e \<le> x\<close> unless \<open>e\<close> is the least exponent, and
  \<open>x < 2\<^sup>e\<^sup>+\<^sup>1\<close> unless it is the greatest. It grows with the magnitude.
\<close>

lemma two_powi_Suc: "(2::real) powi (n + 1) = 2 * 2 powi n"
  by (simp add: power_int_add_1)

lemma exponent_up_spec:
  assumes "1 \<le> x" "e \<le> 1023"
  shows "e \<le> exponent_up x e \<and> exponent_up x e \<le> 1023
         \<and> 2 powi (exponent_up x e - e) \<le> x
         \<and> (exponent_up x e < 1023 \<longrightarrow> x < 2 powi (exponent_up x e - e + 1))"
  using assms
proof (induction x e rule: exponent_up.induct)
  case (1 x e)
  show ?case
  proof (cases "2 \<le> x \<and> e < 1023")
    case True
    define k where "k = exponent_up (x / 2) (e + 1)"
    have eq: "exponent_up x e = k"
      unfolding k_def using True by (subst exponent_up.simps) simp
    have ih: "e + 1 \<le> k \<and> k \<le> 1023 \<and> 2 powi (k - (e + 1)) \<le> x / 2
              \<and> (k < 1023 \<longrightarrow> x / 2 < 2 powi (k - (e + 1) + 1))"
      unfolding k_def using "1.IH" [OF True] True by simp
    have s: "(2::real) powi (k - e) = 2 * 2 powi (k - (e + 1))"
      using two_powi_Suc [of "k - (e + 1)"] by (simp add: algebra_simps)
    have s': "(2::real) powi (k - e + 1) = 2 * 2 powi (k - (e + 1) + 1)"
      using two_powi_Suc [of "k - (e + 1) + 1"] by (simp add: algebra_simps)
    show ?thesis unfolding eq s s' using ih by auto
  next
    case False
    have eq: "exponent_up x e = e"
      by (subst exponent_up.simps) (rule if_not_P [OF False])
    show ?thesis unfolding eq using False "1.prems" by auto
  qed
qed

lemma exponent_down_spec:
  assumes "x < 2" "- 1022 \<le> e"
  shows "- 1022 \<le> exponent_down x e \<and> exponent_down x e \<le> e
         \<and> x * 2 powi (e - exponent_down x e) < 2
         \<and> (- 1022 < exponent_down x e \<longrightarrow> 1 \<le> x * 2 powi (e - exponent_down x e))"
  using assms
proof (induction x e rule: exponent_down.induct)
  case (1 x e)
  show ?case
  proof (cases "x < 1 \<and> - 1022 < e")
    case True
    define k where "k = exponent_down (2 * x) (e - 1)"
    have eq: "exponent_down x e = k"
      unfolding k_def using True by (subst exponent_down.simps) simp
    have ih: "- 1022 \<le> k \<and> k \<le> e - 1 \<and> 2 * x * 2 powi (e - 1 - k) < 2
              \<and> (- 1022 < k \<longrightarrow> 1 \<le> 2 * x * 2 powi (e - 1 - k))"
      unfolding k_def using "1.IH" [OF True] True by simp
    have s: "(2::real) powi (e - k) = 2 * 2 powi (e - 1 - k)"
      using two_powi_Suc [of "e - 1 - k"] by (simp add: algebra_simps)
    show ?thesis unfolding eq s using ih by (auto simp: algebra_simps)
  next
    case False
    have eq: "exponent_down x e = e"
      by (subst exponent_down.simps) (rule if_not_P [OF False])
    show ?thesis unfolding eq using False "1.prems" by auto
  qed
qed

lemma exponent_spec:
  "- 1022 \<le> exponent x \<and> exponent x \<le> 1023
   \<and> (- 1022 < exponent x \<longrightarrow> 2 powi exponent x \<le> x)
   \<and> (exponent x < 1023 \<longrightarrow> x < 2 powi (exponent x + 1))"
proof (cases "1 \<le> x")
  case True
  then show ?thesis using exponent_up_spec [of x 0] by (simp add: exponent_def)
next
  case False
  define k where "k = exponent_down x 0"
  have e: "exponent x = k" using False by (simp add: exponent_def k_def)
  have d: "- 1022 \<le> k \<and> k \<le> 0 \<and> x * 2 powi (- k) < 2 \<and> (- 1022 < k \<longrightarrow> 1 \<le> x * 2 powi (- k))"
    unfolding k_def using exponent_down_spec [of x 0] False by simp
  have p: "(0::real) < 2 powi k" by simp
  have i: "(2::real) powi (- k) = 1 / 2 powi k" by (simp add: power_int_minus_divide)
  have a: "x < 2 powi (k + 1)"
  proof -
    have "x / 2 powi k < 2" using d by (simp add: i)
    then have "x < 2 * 2 powi k" using p by (simp add: pos_divide_less_eq)
    then show ?thesis by (simp add: two_powi_Suc)
  qed
  have b: "2 powi k \<le> x" if "- 1022 < k"
  proof -
    have "1 \<le> x / 2 powi k" using d that by (simp add: i)
    then show ?thesis using p by (simp add: pos_le_divide_eq)
  qed
  show ?thesis unfolding e using d a b by auto
qed

lemma exponent_mono:
  assumes "x \<le> y"
  shows "exponent x \<le> exponent y"
proof (rule ccontr)
  assume "\<not> exponent x \<le> exponent y"
  then have l: "exponent y + 1 \<le> exponent x" by simp
  have "- 1022 < exponent x" using l exponent_spec [of y] by linarith
  then have a: "2 powi exponent x \<le> x" using exponent_spec [of x] by simp
  have "exponent y < 1023" using l exponent_spec [of x] by linarith
  then have b: "y < 2 powi (exponent y + 1)" using exponent_spec [of y] by simp
  have "(2::real) powi (exponent y + 1) \<le> 2 powi exponent x"
    using l by (simp add: power_int_increasing)
  then show False using a b assms by linarith
qed

text \<open>
  The rounded value of \<open>x \<ge> 0\<close> stays between the powers of two that bracket \<open>x\<close>; hence
  rounding is monotone, across exponents too.
\<close>

lemma two_powi_53: "(2::real) powi (e + 1) = 2 ^ 53 * 2 powi (e - 52)"
proof -
  have a: "(2::real) powi (53 + (e - 52)) = 2 powi 53 * 2 powi (e - 52)"
    by (rule power_int_add) simp
  have b: "53 + (e - 52) = e + 1" by simp
  show ?thesis by (simp only: a [unfolded b] power_int_numeral)
qed

lemma two_powi_52: "(2::real) powi e = 2 ^ 52 * 2 powi (e - 52)"
proof -
  have a: "(2::real) powi (52 + (e - 52)) = 2 powi 52 * 2 powi (e - 52)"
    by (rule power_int_add) simp
  have b: "52 + (e - 52) = e" by simp
  show ?thesis by (simp only: a [unfolded b] power_int_numeral)
qed

lemma ulp_pos: "0 < ulp x"
  by (simp add: ulp_def)

text \<open>The rounded value is within half a unit in the last place of \<open>x\<close>.\<close>

lemma nearest_error: "\<bar>nearest x - x\<bar> \<le> ulp x / 2"
proof -
  have "nearest x - x = (of_int (rne (x / ulp x)) - x / ulp x) * ulp x"
    using ulp_pos [of x] by (simp add: nearest_def significand_def algebra_simps)
  then have "\<bar>nearest x - x\<bar> = \<bar>of_int (rne (x / ulp x)) - x / ulp x\<bar> * ulp x"
    using ulp_pos [of x] by (simp add: abs_mult)
  also have "\<dots> \<le> 1 / 2 * ulp x"
    using rne_error [of "x / ulp x"] ulp_pos [of x] by (simp only: mult_le_cancel_right_pos)
  finally show ?thesis by simp
qed

lemma significand_nonneg:
  assumes "0 \<le> x"
  shows "0 \<le> significand x"
proof -
  have "of_int 0 \<le> x / ulp x" using assms ulp_pos [of x] by simp
  then show ?thesis unfolding significand_def by (rule rne_ge)
qed

lemma nearest_upper:
  assumes "0 \<le> x" "exponent x < 1023"
  shows "nearest x \<le> 2 powi (exponent x + 1)"
proof -
  define e where "e = exponent x"
  define u :: real where "u = 2 powi (e - 52)"
  have u: "ulp x = u" using assms by (simp add: ulp_def e_def u_def)
  have up: "0 < u" by (simp add: u_def)
  have p: "(2::real) powi (e + 1) = 2 ^ 53 * u" unfolding u_def by (rule two_powi_53)
  have "x < 2 powi (e + 1)" using exponent_spec [of x] assms by (simp add: e_def)
  then have "x / u \<le> 2 ^ 53" unfolding p using up by (simp add: pos_divide_le_eq)
  then have "x / u \<le> of_int (2 ^ 53)" by simp
  then have "significand x \<le> 2 ^ 53" unfolding significand_def u by (rule rne_le)
  then have "real_of_int (significand x) \<le> 2 ^ 53" by simp
  then have "real_of_int (significand x) * u \<le> 2 ^ 53 * u"
    using up by (simp only: mult_le_cancel_right_pos)
  then show ?thesis unfolding nearest_def u p [symmetric] by (simp add: e_def)
qed

lemma nearest_lower:
  assumes "0 \<le> x" "- 1022 < exponent x"
  shows "2 powi exponent x \<le> nearest x"
proof -
  define e where "e = exponent x"
  define u :: real where "u = 2 powi (e - 52)"
  have u: "ulp x = u" using assms by (simp add: ulp_def e_def u_def)
  have up: "0 < u" by (simp add: u_def)
  have p: "(2::real) powi e = 2 ^ 52 * u" unfolding u_def by (rule two_powi_52)
  have "2 powi e \<le> x" using exponent_spec [of x] assms by (simp add: e_def)
  then have "2 ^ 52 \<le> x / u" unfolding p using up by (simp add: pos_le_divide_eq)
  then have "of_int (2 ^ 52) \<le> x / u" by simp
  then have "2 ^ 52 \<le> significand x" unfolding significand_def u by (rule rne_ge)
  then have "2 ^ 52 \<le> real_of_int (significand x)" by simp
  then have "2 ^ 52 * u \<le> real_of_int (significand x) * u"
    using up by (simp only: mult_le_cancel_right_pos)
  then show ?thesis unfolding nearest_def u p [symmetric] by (simp add: e_def)
qed

lemma nearest_mono:
  assumes "0 \<le> x" "x \<le> y"
  shows "nearest x \<le> nearest y"
proof (cases "exponent x = exponent y")
  case True
  have y: "0 \<le> y" using assms by simp
  have u: "ulp x = ulp y" using assms y True by (simp add: ulp_def)
  have "x / ulp y \<le> y / ulp y" using assms ulp_pos [of y] by (simp add: divide_right_mono)
  then have "significand x \<le> significand y"
    unfolding significand_def u by (rule rne_mono)
  then have "real_of_int (significand x) \<le> real_of_int (significand y)" by simp
  then show ?thesis unfolding nearest_def u using ulp_pos [of y] by (simp add: mult_right_mono)
next
  case False
  have y: "0 \<le> y" using assms by simp
  have l: "exponent x + 1 \<le> exponent y" using exponent_mono [OF assms(2)] False by simp
  have "exponent x < 1023" using l exponent_spec [of y] by linarith
  then have a: "nearest x \<le> 2 powi (exponent x + 1)" using nearest_upper [OF assms(1)] by simp
  have "- 1022 < exponent y" using l exponent_spec [of x] by linarith
  then have b: "2 powi exponent y \<le> nearest y" using nearest_lower [OF y] by simp
  have "(2::real) powi (exponent x + 1) \<le> 2 powi exponent y"
    using l by (simp add: power_int_increasing)
  then show ?thesis using a b by linarith
qed

text \<open>Overflow, said of the rounded value: it is \<open>2\<^sup>1\<^sup>0\<^sup>2\<^sup>4\<close> or more.\<close>

lemma fl_nonneg:
  assumes "0 \<le> x"
  shows "fl x = (if 2 powi 1024 \<le> nearest x then Infty False else Fin (nearest x))"
proof -
  define e where "e = exponent x"
  define m where "m = significand x"
  define u :: real where "u = 2 powi (e - 52)"
  have u: "ulp x = u" using assms by (simp add: ulp_def e_def u_def)
  have up: "0 < u" by (simp add: u_def)
  have m0: "0 \<le> m" unfolding m_def using assms by (rule significand_nonneg)
  have n: "nearest x = of_int m * u" by (simp add: nearest_def m_def u)
  have p: "(2::real) powi (e + 1) = 2 ^ 53 * u" unfolding u_def by (rule two_powi_53)
  have "(2 ^ 53 \<le> \<bar>m\<bar> \<and> e = 1023) \<longleftrightarrow> 2 powi 1024 \<le> nearest x"
  proof
    assume h: "2 ^ 53 \<le> \<bar>m\<bar> \<and> e = 1023"
    then have "2 ^ 53 \<le> m" using m0 by simp
    then have "2 ^ 53 \<le> real_of_int m" by simp
    then have "2 ^ 53 * u \<le> real_of_int m * u"
      using up by (simp only: mult_le_cancel_right_pos)
    then have "2 powi (e + 1) \<le> nearest x" unfolding p n .
    then show "2 powi 1024 \<le> nearest x" using h by simp
  next
    assume h: "2 powi 1024 \<le> nearest x"
    have e: "e = 1023"
    proof (rule ccontr)
      assume "e \<noteq> 1023"
      then have l: "e < 1023" using exponent_spec [of x] by (simp add: e_def)
      then have "nearest x \<le> 2 powi (e + 1)"
        using nearest_upper [OF assms] by (simp add: e_def)
      moreover have "(2::real) powi (e + 1) < 2 powi 1024"
        by (rule power_int_strict_increasing) (use l in simp_all)
      ultimately show False using h by linarith
    qed
    have "2 powi (e + 1) \<le> nearest x" using h e by simp
    then have "2 ^ 53 * u \<le> real_of_int m * u" unfolding p n .
    then have "2 ^ 53 \<le> real_of_int m" using up by (simp only: mult_le_cancel_right_pos)
    then have "2 ^ 53 \<le> m" by simp
    then show "2 ^ 53 \<le> \<bar>m\<bar> \<and> e = 1023" using e by simp
  qed
  then show ?thesis using assms by (simp add: fl_def m_def e_def)
qed

lemma fl_mono:
  assumes "0 \<le> x" "x \<le> y"
  shows "float_le (fl x) (fl y)"
proof -
  have y: "0 \<le> y" using assms by simp
  show ?thesis
    using nearest_mono [OF assms] by (simp add: fl_nonneg [OF assms(1)] fl_nonneg [OF y])
qed

lemma fl_zero: "fl 0 = Fin 0"
  by (simp add: fl_def nearest_def significand_def rne_def)

lemma fl_nonneg_le:
  assumes "0 \<le> x"
  shows "float_le (Fin 0) (fl x)"
  using fl_mono [of 0 x] assms by (simp add: fl_zero)

text \<open>
  On non-negative doubles a product grows with its factors, and a quotient of a positive
  numerator shrinks when the divisor grows.
\<close>

lemma float_mul_mono:
  assumes "float_le (Fin 0) p" "float_le p q" "0 < v" "v \<le> w"
  shows "float_le (Fin 0) (float_mul p (Fin v)) \<and> float_le (float_mul p (Fin v)) (float_mul q (Fin w))"
proof (cases p)
  case (Fin a)
  then have a: "0 \<le> a" using assms(1) by simp
  have av: "0 \<le> a * v" using a assms(3) by simp
  show ?thesis
  proof (cases q)
    case (Fin b)
    then have "a \<le> b" using assms(2) \<open>p = Fin a\<close> by simp
    then have "a * v \<le> b * w" using a assms(3,4) by (simp add: mult_mono)
    then show ?thesis using \<open>p = Fin a\<close> Fin fl_mono [OF av] fl_nonneg_le [OF av] by simp
  next
    case (Infty t)
    then have t: "\<not> t" using assms(2) \<open>p = Fin a\<close> by (simp split: if_splits)
    have w: "0 < w" using assms(3,4) by simp
    have "float_le (fl (a * v)) (Infty False)"
      using av by (simp add: fl_nonneg)
    then show ?thesis using \<open>p = Fin a\<close> Infty t w fl_nonneg_le [OF av] by simp
  next
    case Nan
    then show ?thesis using assms(2) \<open>p = Fin a\<close> by simp
  qed
next
  case (Infty s)
  then have s: "\<not> s" using assms(1) by (simp split: if_splits)
  have w: "0 < w" using assms(3,4) by simp
  show ?thesis
  proof (cases q)
    case (Fin b)
    then show ?thesis using assms(2) \<open>p = Infty s\<close> s by simp
  next
    case (Infty t)
    then have "\<not> t" using assms(2) \<open>p = Infty s\<close> s by (simp split: if_splits)
    then show ?thesis using \<open>p = Infty s\<close> Infty s w assms(3) by simp
  next
    case Nan
    then show ?thesis using assms(2) \<open>p = Infty s\<close> by simp
  qed
next
  case Nan
  then show ?thesis using assms(1) by simp
qed

lemma float_truediv_antimono:
  assumes "0 < k" "float_le (Fin 0) d" "float_le d d'" "float_truediv (Fin k) d = Inr a"
  shows "\<exists>b. float_truediv (Fin k) d' = Inr b \<and> float_le b a"
proof (cases d)
  case (Fin x)
  then have x: "0 < x" using assms(2,4) by (auto simp: float_truediv_def split: if_splits)
  have a: "a = fl (k / x)" using assms(4) Fin x by (simp add: float_truediv_def)
  have kx: "0 \<le> k / x" using assms(1) x by simp
  show ?thesis
  proof (cases d')
    case (Fin y)
    then have y: "x \<le> y" using assms(3) \<open>d = Fin x\<close> by simp
    then have "0 \<le> k / y" "k / y \<le> k / x" using assms(1) x by (simp_all add: frac_le)
    then have "float_le (fl (k / y)) (fl (k / x))" by (rule fl_mono)
    then show ?thesis using Fin x y a by (simp add: float_truediv_def)
  next
    case (Infty t)
    then show ?thesis using a fl_nonneg_le [OF kx] by (simp add: float_truediv_def)
  next
    case Nan
    then show ?thesis using assms(3) \<open>d = Fin x\<close> by simp
  qed
next
  case (Infty s)
  then have s: "\<not> s" using assms(2) by (simp split: if_splits)
  have a: "a = Fin 0" using assms(4) Infty by (simp add: float_truediv_def)
  show ?thesis
  proof (cases d')
    case (Fin y)
    then show ?thesis using assms(3) \<open>d = Infty s\<close> s by simp
  next
    case (Infty t)
    then show ?thesis using a by (simp add: float_truediv_def)
  next
    case Nan
    then show ?thesis using assms(3) \<open>d = Infty s\<close> by simp
  qed
next
  case Nan
  then show ?thesis using assms(2) by simp
qed

text \<open>The equations that evaluate a rounding at a numeral.\<close>

lemmas fl_eval = fl_def nearest_def significand_def ulp_def exponent_def exponent_up.simps
  exponent_down.simps rne_def Let_def

text \<open>The numerator \<^verbatim>\<open>one * two * three\<close> is one double, whatever the arguments.\<close>

lemma scale_gpumd_tc_double_numerator:
  "scale_gpumd_tc_double vol T
     = float_truediv (Fin (3010625047290237 / 16777216)) (float_mul (float_mul T T) vol)"
proof -
  have two: "float_truediv (fl 1) (fl (10 ^ 15)) = Inr (Fin (2535301200456459/2535301200456458802993406410752))"
    by (simp add: float_truediv_def fl_eval)
  have three: "float_truediv (fl (10 ^ 30)) (fl (8.617333262145 / 10 ^ 5))
                 = Inr (Fin 11604518121550322809598172580544512)"
    by (simp add: float_truediv_def fl_eval)
  have one: "float_mul (fl (1.602176634 / 10 ^ 19)) (fl (9.651599 * 10 ^ 7))
               = Fin (2392870999362241/154742504910672534362390528)"
    by (simp add: fl_eval)
  have k: "float_mul (float_mul (Fin (2392870999362241/154742504910672534362390528))
                        (Fin (2535301200456459/2535301200456458802993406410752)))
                     (Fin 11604518121550322809598172580544512)
             = Fin (3010625047290237 / 16777216)"
    by (simp add: fl_eval)
  show ?thesis by (simp only: scale_gpumd_tc_double_def two three one k Let_def sum.case)
qed

text \<open>
  C8, as amended. On doubles, for positive \<open>T\<close> and \<open>V\<close>, the unit scaler does not increase
  when \<open>T\<close> grows at fixed \<open>V\<close>, nor when \<open>V\<close> grows at fixed \<open>T\<close>: if the call at
  \<open>(V1, T1)\<close> returns \<open>a\<close> and \<open>T1 \<le> T2\<close>, \<open>V1 \<le> V2\<close>, then the call at \<open>(V2, T2)\<close> returns
  too, a value \<open>b \<le> a\<close>. The decrease is not strict.
\<close>

theorem scale_gpumd_tc_double_nonincreasing:
  assumes "0 < T1" "T1 \<le> T2" "0 < V1" "V1 \<le> V2"
    and "scale_gpumd_tc_double (Fin V1) (Fin T1) = Inr a"
  shows "\<exists>b. scale_gpumd_tc_double (Fin V2) (Fin T2) = Inr b \<and> float_le b a"
proof -
  have t1: "0 \<le> T1 * T1" by simp
  have "T1 * T1 \<le> T2 * T2" using assms(1,2) by (simp add: mult_mono)
  then have sq: "float_le (float_mul (Fin T1) (Fin T1)) (float_mul (Fin T2) (Fin T2))"
    using fl_mono [OF t1] by simp
  have sq0: "float_le (Fin 0) (float_mul (Fin T1) (Fin T1))"
    using fl_nonneg_le [OF t1] by simp
  have d: "float_le (Fin 0) (float_mul (float_mul (Fin T1) (Fin T1)) (Fin V1))
           \<and> float_le (float_mul (float_mul (Fin T1) (Fin T1)) (Fin V1))
                       (float_mul (float_mul (Fin T2) (Fin T2)) (Fin V2))"
    using sq0 sq assms(3,4) by (rule float_mul_mono)
  have k: "(0::real) < 3010625047290237 / 16777216" by simp
  show ?thesis
    unfolding scale_gpumd_tc_double_numerator
    using k d [THEN conjunct1] d [THEN conjunct2] assms(5) [unfolded scale_gpumd_tc_double_numerator]
    by (rule float_truediv_antimono)
qed

text \<open>
  At 300 K and volume 1 the scaler returns the double \<open>1993.8581832847576\<close>; at 400 K and
  volume 2 it returns a smaller one.
\<close>

theorem scale_gpumd_tc_double_nonincreasing_witness:
  "(0::real) < 300 \<and> (300::real) \<le> 400 \<and> (0::real) < 1 \<and> (1::real) \<le> 2
   \<and> scale_gpumd_tc_double (Fin 1) (Fin 300) = Inr (Fin (1096135128328961 / 549755813888))
   \<and> (\<exists>b. scale_gpumd_tc_double (Fin 2) (Fin 400) = Inr b
          \<and> float_le b (Fin (1096135128328961 / 549755813888)))"
proof -
  have a: "scale_gpumd_tc_double (Fin 1) (Fin 300) = Inr (Fin (1096135128328961 / 549755813888))"
    unfolding scale_gpumd_tc_double_numerator by (simp add: float_truediv_def fl_eval)
  have h: "(0::real) < 300" "(300::real) \<le> 400" "(0::real) < 1" "(1::real) \<le> 2" by simp_all
  show ?thesis
    using h a scale_gpumd_tc_double_nonincreasing [OF h a] by (intro conjI)
qed

text \<open>
  C8 as stated fails on doubles. At \<open>T = 300\<close> the volume \<^verbatim>\<open>1.9\<close>, which is the double
  \<open>4278419646001971 / 2\<^sup>5\<^sup>1\<close>, and the next double above it, \<open>8556839292003943 / 2\<^sup>5\<^sup>2\<close>, give
  the same value \<open>1049.399043834083\<close>; at volume 1 the temperature
  \<open>4398046511104005 / 2\<^sup>4\<^sup>3\<close> (about \<open>500.00000000000057\<close>) and the next double above it give
  the same value \<open>717.788945982511\<close>. Each of these arguments is a double: rounding leaves
  it as it is.
\<close>

theorem scale_gpumd_tc_double_tie:
  "fl (19 / 10) = Fin (4278419646001971 / 2251799813685248)
   \<and> fl (8556839292003943 / 4503599627370496) = Fin (8556839292003943 / 4503599627370496)
   \<and> fl 300 = Fin 300
   \<and> (4278419646001971 / 2251799813685248 :: real) < 8556839292003943 / 4503599627370496
   \<and> scale_gpumd_tc_double (Fin (4278419646001971 / 2251799813685248)) (Fin 300)
       = Inr (Fin (2307652901745181 / 2199023255552))
   \<and> scale_gpumd_tc_double (Fin (8556839292003943 / 4503599627370496)) (Fin 300)
       = Inr (Fin (2307652901745181 / 2199023255552))
   \<and> fl (4398046511104005 / 8796093022208) = Fin (4398046511104005 / 8796093022208)
   \<and> fl (8796093022208011 / 17592186044416) = Fin (8796093022208011 / 17592186044416)
   \<and> fl 1 = Fin 1
   \<and> (4398046511104005 / 8796093022208 :: real) < 8796093022208011 / 17592186044416
   \<and> scale_gpumd_tc_double (Fin 1) (Fin (4398046511104005 / 8796093022208))
       = Inr (Fin (394608646198425 / 549755813888))
   \<and> scale_gpumd_tc_double (Fin 1) (Fin (8796093022208011 / 17592186044416))
       = Inr (Fin (394608646198425 / 549755813888))"
proof (intro conjI)
  show "fl (19 / 10) = Fin (4278419646001971 / 2251799813685248)" by (simp add: fl_eval)
  show "fl (8556839292003943 / 4503599627370496) = Fin (8556839292003943 / 4503599627370496)"
    by (simp add: fl_eval)
  show "fl 300 = Fin 300" by (simp add: fl_eval)
  show "(4278419646001971 / 2251799813685248 :: real) < 8556839292003943 / 4503599627370496"
    by simp
  show "scale_gpumd_tc_double (Fin (4278419646001971 / 2251799813685248)) (Fin 300)
          = Inr (Fin (2307652901745181 / 2199023255552))"
    unfolding scale_gpumd_tc_double_numerator by (simp add: float_truediv_def fl_eval)
  show "scale_gpumd_tc_double (Fin (8556839292003943 / 4503599627370496)) (Fin 300)
          = Inr (Fin (2307652901745181 / 2199023255552))"
    unfolding scale_gpumd_tc_double_numerator by (simp add: float_truediv_def fl_eval)
  show "fl (4398046511104005 / 8796093022208) = Fin (4398046511104005 / 8796093022208)"
    by (simp add: fl_eval)
  show "fl (8796093022208011 / 17592186044416) = Fin (8796093022208011 / 17592186044416)"
    by (simp add: fl_eval)
  show "fl 1 = Fin 1" by (simp add: fl_eval)
  show "(4398046511104005 / 8796093022208 :: real) < 8796093022208011 / 17592186044416"
    by simp
  show "scale_gpumd_tc_double (Fin 1) (Fin (4398046511104005 / 8796093022208))
          = Inr (Fin (394608646198425 / 549755813888))"
    unfolding scale_gpumd_tc_double_numerator by (simp add: float_truediv_def fl_eval)
  show "scale_gpumd_tc_double (Fin 1) (Fin (8796093022208011 / 17592186044416))
          = Inr (Fin (394608646198425 / 549755813888))"
    unfolding scale_gpumd_tc_double_numerator by (simp add: float_truediv_def fl_eval)
qed

section \<open>Properties of the spectral converter\<close>

lemma hnemd_spectral_kappa_present:
  assumes "shc ''J_in'' = Some J_in" "shc ''J_out'' = Some J_out"
  shows "hnemd_spectral_kappa shc Fe T V =
           (Inr None,
            shc(''k_in'' \<mapsto> map (\<lambda>j. divide_scalar (times_scalar j 1602.17662) (Fe * T * V)) J_in,
                ''k_out'' \<mapsto> map (\<lambda>j. divide_scalar (times_scalar j 1602.17662) (Fe * T * V)) J_out))"
  using assms by (simp add: hnemd_spectral_kappa_def Let_def)

lemma hnemd_spectral_kappa_absent:
  assumes "shc ''J_in'' = None \<or> shc ''J_out'' = None"
  shows "hnemd_spectral_kappa shc Fe T V =
           (Inl (ValueError ''shc argument must be from load_shc and contain in/out heat currents.''), shc)"
  using assms by (auto simp: hnemd_spectral_kappa_def Let_def split: option.splits)

lemma scale_entry_finite:
  assumes "Fe * T * V \<noteq> 0"
  shows "divide_scalar (times_scalar (Finite x) c) (Fe * T * V) = Finite (x * c / (Fe * T * V))"
  using assms by (simp add: np_divide_def)

text \<open>
  C4: \<^verbatim>\<open>hnemd_spectral_kappa\<close> raises exactly when \<^verbatim>\<open>J_in\<close> or \<^verbatim>\<open>J_out\<close> is absent from the
  record. Otherwise it stores under \<^verbatim>\<open>k_in\<close> and \<^verbatim>\<open>k_out\<close> arrays as long as \<^verbatim>\<open>J_in\<close> and
  \<^verbatim>\<open>J_out\<close>, whose entries are, for a finite entry \<open>x\<close> of the input and \<open>Fe\<cdot>T\<cdot>V \<noteq> 0\<close>,
  \<open>x \<times> 1602.17662 / (Fe\<cdot>T\<cdot>V)\<close>: a scaling entry by entry, nothing else.
\<close>

theorem hnemd_spectral_kappa_scaling:
  "((\<exists>e. fst (hnemd_spectral_kappa shc Fe T V) = Inl e)
      \<longleftrightarrow> (shc ''J_in'' = None \<or> shc ''J_out'' = None))
   \<and> (\<forall>J_in J_out. shc ''J_in'' = Some J_in \<and> shc ''J_out'' = Some J_out \<longrightarrow>
        (\<exists>k_in k_out.
           hnemd_spectral_kappa shc Fe T V = (Inr None, shc(''k_in'' \<mapsto> k_in, ''k_out'' \<mapsto> k_out))
           \<and> length k_in = length J_in \<and> length k_out = length J_out
           \<and> (\<forall>i x. Fe * T * V \<noteq> 0 \<and> i < length J_in \<and> J_in ! i = Finite x
                  \<longrightarrow> k_in ! i = Finite (x * 1602.17662 / (Fe * T * V)))
           \<and> (\<forall>i x. Fe * T * V \<noteq> 0 \<and> i < length J_out \<and> J_out ! i = Finite x
                  \<longrightarrow> k_out ! i = Finite (x * 1602.17662 / (Fe * T * V)))))"
proof (intro conjI allI impI)
  show "(\<exists>e. fst (hnemd_spectral_kappa shc Fe T V) = Inl e)
          \<longleftrightarrow> (shc ''J_in'' = None \<or> shc ''J_out'' = None)"
    by (auto simp: hnemd_spectral_kappa_def Let_def split: option.splits)
next
  fix J_in J_out
  assume h: "shc ''J_in'' = Some J_in \<and> shc ''J_out'' = Some J_out"
  let ?f = "\<lambda>j. divide_scalar (times_scalar j 1602.17662) (Fe * T * V)"
  have r: "hnemd_spectral_kappa shc Fe T V
             = (Inr None, shc(''k_in'' \<mapsto> map ?f J_in, ''k_out'' \<mapsto> map ?f J_out))"
    using h hnemd_spectral_kappa_present by blast
  have e: "\<forall>i x. Fe * T * V \<noteq> 0 \<and> i < length J \<and> J ! i = Finite x
                 \<longrightarrow> map ?f J ! i = Finite (x * 1602.17662 / (Fe * T * V))" for J
    using scale_entry_finite [of Fe T V _ "1602.17662"] by simp
  show "\<exists>k_in k_out.
           hnemd_spectral_kappa shc Fe T V = (Inr None, shc(''k_in'' \<mapsto> k_in, ''k_out'' \<mapsto> k_out))
           \<and> length k_in = length J_in \<and> length k_out = length J_out
           \<and> (\<forall>i x. Fe * T * V \<noteq> 0 \<and> i < length J_in \<and> J_in ! i = Finite x
                  \<longrightarrow> k_in ! i = Finite (x * 1602.17662 / (Fe * T * V)))
           \<and> (\<forall>i x. Fe * T * V \<noteq> 0 \<and> i < length J_out \<and> J_out ! i = Finite x
                  \<longrightarrow> k_out ! i = Finite (x * 1602.17662 / (Fe * T * V)))"
  proof (intro exI conjI)
    show "hnemd_spectral_kappa shc Fe T V
            = (Inr None, shc(''k_in'' \<mapsto> map ?f J_in, ''k_out'' \<mapsto> map ?f J_out))"
      by (rule r)
    show "length (map ?f J_in) = length J_in" by simp
    show "length (map ?f J_out) = length J_out" by simp
    show "\<forall>i x. Fe * T * V \<noteq> 0 \<and> i < length J_in \<and> J_in ! i = Finite x
                  \<longrightarrow> map ?f J_in ! i = Finite (x * 1602.17662 / (Fe * T * V))"
      by (rule e)
    show "\<forall>i x. Fe * T * V \<noteq> 0 \<and> i < length J_out \<and> J_out ! i = Finite x
                  \<longrightarrow> map ?f J_out ! i = Finite (x * 1602.17662 / (Fe * T * V))"
      by (rule e)
  qed
qed

text \<open>
  The HNEMD scenario of the specification, \<open>J_in = 10\<close>, \<open>J_out = -10\<close>, \<open>Fe = 0.01\<close>,
  \<open>T = 300\<close>, \<open>V = 1000\<close>, as one-entry arrays: \<open>k_in = 10 \<times> 1602.17662 / (0.01 \<times> 300 \<times> 1000)\<close>
  and \<open>k_out = - k_in\<close>.
\<close>

theorem hnemd_spectral_kappa_scaling_witness:
  "\<exists>k_in k_out.
     hnemd_spectral_kappa [''J_in'' \<mapsto> [Finite 10], ''J_out'' \<mapsto> [Finite (- 10)]] 0.01 300 1000
       = (Inr None, [''J_in'' \<mapsto> [Finite 10], ''J_out'' \<mapsto> [Finite (- 10)],
                     ''k_in'' \<mapsto> k_in, ''k_out'' \<mapsto> k_out])
     \<and> k_in ! 0 = Finite (10 * 1602.17662 / (0.01 * 300 * 1000))
     \<and> k_out ! 0 = Finite (- (10 * 1602.17662 / (0.01 * 300 * 1000)))
     \<and> length k_in = 1 \<and> length k_out = 1"
proof -
  let ?shc = "[''J_in'' \<mapsto> [Finite 10], ''J_out'' \<mapsto> [Finite (- 10)]]"
  have "?shc ''J_in'' = Some [Finite 10] \<and> ?shc ''J_out'' = Some [Finite (- 10)]" by simp
  with hnemd_spectral_kappa_scaling [of ?shc "0.01" 300 1000]
  obtain k_in k_out where
    r: "hnemd_spectral_kappa ?shc 0.01 300 1000
          = (Inr None, ?shc(''k_in'' \<mapsto> k_in, ''k_out'' \<mapsto> k_out))"
    and l: "length k_in = length [Finite 10 :: npfloat]" "length k_out = length [Finite (- 10) :: npfloat]"
    and i: "\<forall>i x. (0.01::real) * 300 * 1000 \<noteq> 0 \<and> i < length [Finite 10 :: npfloat]
                 \<and> [Finite 10] ! i = Finite x
               \<longrightarrow> k_in ! i = Finite (x * 1602.17662 / (0.01 * 300 * 1000))"
    and o: "\<forall>i x. (0.01::real) * 300 * 1000 \<noteq> 0 \<and> i < length [Finite (- 10) :: npfloat]
                 \<and> [Finite (- 10)] ! i = Finite x
               \<longrightarrow> k_out ! i = Finite (x * 1602.17662 / (0.01 * 300 * 1000))"
    by blast
  have "k_in ! 0 = Finite (10 * 1602.17662 / (0.01 * 300 * 1000))"
    using i [rule_format, of 0 10] by simp
  moreover have "k_out ! 0 = Finite (- (10 * 1602.17662 / (0.01 * 300 * 1000)))"
    using o [rule_format, of 0 "- 10"] by simp
  ultimately show ?thesis using r l by auto
qed

text \<open>
  C9: a call that does not raise returns \<^verbatim>\<open>None\<close>; whether it raises or not, every entry
  of the record under a key other than \<^verbatim>\<open>k_in\<close> and \<^verbatim>\<open>k_out\<close> is as it was, the inputs
  \<^verbatim>\<open>J_in\<close> and \<^verbatim>\<open>J_out\<close> among them.
\<close>

theorem hnemd_spectral_kappa_frame:
  "(\<forall>r. fst (hnemd_spectral_kappa shc Fe T V) = Inr r \<longrightarrow> r = None)
   \<and> (\<forall>k. k \<noteq> ''k_in'' \<and> k \<noteq> ''k_out'' \<longrightarrow> snd (hnemd_spectral_kappa shc Fe T V) k = shc k)
   \<and> snd (hnemd_spectral_kappa shc Fe T V) ''J_in'' = shc ''J_in''
   \<and> snd (hnemd_spectral_kappa shc Fe T V) ''J_out'' = shc ''J_out''"
  by (auto simp: hnemd_spectral_kappa_def Let_def split: option.splits)

theorem hnemd_spectral_kappa_frame_witness:
  "fst (hnemd_spectral_kappa [''J_in'' \<mapsto> [Finite 10], ''J_out'' \<mapsto> [Finite (- 10)], ''nu'' \<mapsto> [Finite 1]]
          0.01 300 1000) = Inr None
   \<and> snd (hnemd_spectral_kappa [''J_in'' \<mapsto> [Finite 10], ''J_out'' \<mapsto> [Finite (- 10)], ''nu'' \<mapsto> [Finite 1]]
          0.01 300 1000) ''nu'' = Some [Finite 1]
   \<and> snd (hnemd_spectral_kappa [''J_in'' \<mapsto> [Finite 10], ''J_out'' \<mapsto> [Finite (- 10)], ''nu'' \<mapsto> [Finite 1]]
          0.01 300 1000) ''J_in'' = Some [Finite 10]"
proof -
  let ?shc = "[''J_in'' \<mapsto> [Finite 10], ''J_out'' \<mapsto> [Finite (- 10)], ''nu'' \<mapsto> [Finite 1]]"
  have ok: "fst (hnemd_spectral_kappa ?shc 0.01 300 1000) = Inr None"
    by (simp add: hnemd_spectral_kappa_def Let_def)
  have k: "''nu'' \<noteq> ''k_in'' \<and> ''nu'' \<noteq> ''k_out''" by simp
  show ?thesis
    using ok k hnemd_spectral_kappa_frame [of ?shc "0.01" 300 1000] by simp
qed

section \<open>Properties of the cumulative integrator and of the running average\<close>

lemma length_diff: "length (diff x) = length x - 1"
  by (simp add: diff_def)

lemma nth_diff:
  assumes "Suc j < length x"
  shows "diff x ! j = x ! Suc j - x ! j"
  using assms by (simp add: diff_def nth_tl nth_butlast)

lemma length_cumsum_from: "length (cumsum_from s zs) = length zs"
  by (induction zs arbitrary: s) simp_all

lemma nth_cumsum_from:
  assumes "n < length zs"
  shows "cumsum_from s zs ! n = s + (\<Sum>j<Suc n. zs ! j)"
  using assms
proof (induction zs arbitrary: s n)
  case Nil
  then show ?case by simp
next
  case (Cons z zs)
  show ?case
  proof (cases n)
    case 0
    then show ?thesis by simp
  next
    case (Suc m)
    then have m: "m < length zs" using Cons.prems by simp
    have "(\<Sum>j<Suc (Suc m). (z # zs) ! j) = z + (\<Sum>j<Suc m. zs ! j)"
      by (simp only: sum.lessThan_Suc_shift) simp
    then show ?thesis using Suc Cons.IH [OF m, of "s + z"] by simp
  qed
qed

lemma nth_zero_seeded_cumsum:
  assumes "n \<le> length zs"
  shows "(0 # cumsum zs) ! n = (\<Sum>j<n. zs ! j)"
proof (cases n)
  case 0
  then show ?thesis by simp
next
  case (Suc m)
  then have "m < length zs" using assms by simp
  then show ?thesis using Suc by (simp add: cumsum_def nth_cumsum_from)
qed

lemma cumtrapz_zero_seeded:
  assumes "cumtrapz y x = Inr F"
  shows "F \<noteq> [] \<and> F ! 0 = 0 \<and> length F = length y"
proof -
  have len: "int (length (diff x)) = int (length y) - 1"
    using assms by (auto simp: cumtrapz_def Let_def split: if_splits)
  then have y: "length y = Suc (length (diff x))" by linarith
  have "F = 0 # cumsum (map2 (\<lambda>d s. d * s / 2) (diff x) (map2 (+) (tl y) (butlast y)))"
    using assms len by (simp add: cumtrapz_def Let_def)
  then show ?thesis using y by (simp add: cumsum_def length_cumsum_from)
qed

lemma cumtrapz_trapezoid:
  assumes "length y = length x" "x \<noteq> []"
  shows "\<exists>F. cumtrapz y x = Inr F \<and> length F = length x
           \<and> (\<forall>n<length x. F ! n = trapezoid_integral y x n)"
proof -
  let ?zs = "map2 (\<lambda>d s. d * s / 2) (diff x) (map2 (+) (tl y) (butlast y))"
  have lx: "0 < length x" using assms by simp
  have len: "int (length (diff x)) = int (length y) - 1"
    using assms lx by (cases x) (simp_all add: length_diff)
  have r: "cumtrapz y x = Inr (0 # cumsum ?zs)"
    using len by (simp add: cumtrapz_def Let_def)
  have lz: "length ?zs = length x - 1"
    using assms by (simp add: length_diff)
  have z: "?zs ! j = (x ! Suc j - x ! j) * (y ! Suc j + y ! j) / 2" if "Suc j < length x" for j
    using that assms by (simp add: length_diff nth_diff nth_tl nth_butlast)
  have "(0 # cumsum ?zs) ! n = trapezoid_integral y x n" if "n < length x" for n
  proof -
    have "n \<le> length ?zs" using that lz by simp
    then have "(0 # cumsum ?zs) ! n = (\<Sum>j<n. ?zs ! j)" by (rule nth_zero_seeded_cumsum)
    also have "\<dots> = (\<Sum>j<n. (x ! Suc j - x ! j) * (y ! Suc j + y ! j) / 2)"
      using that by (intro sum.cong refl z) simp
    finally show ?thesis by (simp add: trapezoid_integral_def)
  qed
  moreover have "length (0 # cumsum ?zs) = length x"
    using lz lx by (simp add: cumsum_def length_cumsum_from)
  ultimately show ?thesis using r by blast
qed

text \<open>
  C7: for a series and a time axis of one length (at least one sample), \<^verbatim>\<open>running_ave\<close>
  returns, sample by sample, the zero-seeded cumulative trapezoidal integral of \<open>kappa\<close> over
  \<open>time\<close> divided by the time: \<open>output[n] = F(n) / time[n]\<close>. The division is NumPy's and
  nothing guards it: when \<open>time[0] = 0\<close> the first output is \<open>0/0\<close>, a \<open>NaN\<close> and no
  finite value.
\<close>

theorem running_ave_divides_integral_by_time:
  assumes "length kappa = length time" "time \<noteq> []"
  shows "\<exists>out. running_ave kappa time = Inr out \<and> length out = length time
           \<and> (\<forall>n<length time. out ! n = np_divide (trapezoid_integral kappa time n) (time ! n))
           \<and> (time ! 0 = 0 \<longrightarrow> out ! 0 = NaN \<and> (\<forall>v. out ! 0 \<noteq> Finite v))"
proof -
  obtain F where F: "cumtrapz kappa time = Inr F" "length F = length time"
      "\<forall>n<length time. F ! n = trapezoid_integral kappa time n"
    using cumtrapz_trapezoid [OF assms] by blast
  let ?out = "map2 np_divide F time"
  have r: "running_ave kappa time = Inr ?out"
    using F by (simp add: running_ave_def broadcast2_def)
  have l: "length ?out = length time" using F by simp
  have n: "?out ! n = np_divide (trapezoid_integral kappa time n) (time ! n)"
    if "n < length time" for n
    using that F by simp
  have "trapezoid_integral kappa time 0 = 0" by (simp add: trapezoid_integral_def)
  then have z: "?out ! 0 = NaN" if "time ! 0 = 0"
    using that assms n [of 0] by (simp add: np_divide_def)
  show ?thesis using r l n z by auto
qed

theorem running_ave_divides_integral_by_time_witness:
  "\<exists>out. running_ave [2, 4, 6] [0, 1, 2] = Inr out \<and> length out = 3
     \<and> out ! 0 = NaN \<and> out ! 1 = Finite 3 \<and> out ! 2 = Finite 4"
proof -
  have h: "length [2, 4, 6 :: real] = length [0, 1, 2 :: real]" "[0, 1, 2 :: real] \<noteq> []"
    by simp_all
  obtain out where o: "running_ave [2, 4, 6] [0, 1, 2] = Inr out" "length out = length [0, 1, 2 :: real]"
      "\<forall>n<length [0, 1, 2 :: real]. out ! n = np_divide (trapezoid_integral [2, 4, 6] [0, 1, 2] n) ([0, 1, 2] ! n)"
      "[0, 1, 2 :: real] ! 0 = 0 \<longrightarrow> out ! 0 = NaN \<and> (\<forall>v. out ! 0 \<noteq> Finite v)"
    using running_ave_divides_integral_by_time [OF h] by blast
  have "out ! 1 = Finite 3"
    using o(3) [rule_format, of 1] by (simp add: trapezoid_integral_def np_divide_def)
  moreover have "out ! 2 = Finite 4"
    using o(3) [rule_format, of 2]
    by (simp add: trapezoid_integral_def np_divide_def lessThan_Suc numeral_2_eq_2)
  moreover have "out ! 0 = NaN" using o(4) by simp
  ultimately show ?thesis using o(1,2) by simp
qed

section \<open>Properties of the group assignment\<close>

lemma get_group_loop_range:
  "get_group_loop split d i = - 1
     \<or> (\<exists>k. get_group_loop split d i = int k \<and> i \<le> k \<and> Suc k < length split
            \<and> split ! k \<le> d \<and> d < split ! Suc k)"
proof (induction split d i rule: get_group_loop.induct)
  case (1 split d i)
  note unfold = get_group_loop.simps [of split d i]
  show ?case
  proof (cases "Suc i < length split")
    case False
    then show ?thesis by (simp add: unfold)
  next
    case in_range: True
    show ?thesis
    proof (cases "i = 0 \<and> d < split ! i")
      case True
      have "get_group_loop split d i = - 1"
        by (simp only: unfold if_P [OF in_range] if_P [OF True])
      then show ?thesis by simp
    next
      case not_below: False
      show ?thesis
      proof (cases "split ! i \<le> d \<and> d < split ! Suc i")
        case True
        have "get_group_loop split d i = int i"
          by (simp only: unfold if_P [OF in_range] if_not_P [OF not_below] if_P [OF True])
        then show ?thesis using in_range True by blast
      next
        case False
        have e: "get_group_loop split d i = get_group_loop split d (Suc i)"
          by (simp only: unfold if_P [OF in_range] if_not_P [OF not_below] if_not_P [OF False])
        have "get_group_loop split d (Suc i) = - 1
                \<or> (\<exists>k. get_group_loop split d (Suc i) = int k \<and> Suc i \<le> k \<and> Suc k < length split
                       \<and> split ! k \<le> d \<and> d < split ! Suc k)"
          using "1.IH" [OF in_range not_below False] .
        then show ?thesis
        proof
          assume "get_group_loop split d (Suc i) = - 1"
          then show ?thesis using e by simp
        next
          assume "\<exists>k. get_group_loop split d (Suc i) = int k \<and> Suc i \<le> k \<and> Suc k < length split
                       \<and> split ! k \<le> d \<and> d < split ! Suc k"
          then obtain k where k: "get_group_loop split d (Suc i) = int k" "Suc i \<le> k"
              "Suc k < length split" "split ! k \<le> d" "d < split ! Suc k"
            by blast
          have "i \<le> k" using k(2) by simp
          then show ?thesis using e k by auto
        qed
      qed
    qed
  qed
qed

lemma get_group_loop_above:
  assumes "\<forall>b\<in>set split. b \<le> last split" "last split \<le> d"
  shows "get_group_loop split d i = - 1"
  using assms
proof (induction split d i rule: get_group_loop.induct)
  case (1 split d i)
  note unfold = get_group_loop.simps [of split d i]
  show ?case
  proof (cases "Suc i < length split")
    case False
    then show ?thesis by (simp add: unfold)
  next
    case in_range: True
    then have "split ! Suc i \<in> set split" by simp
    then have "split ! Suc i \<le> last split" using "1.prems"(1) by blast
    then have above: "\<not> (split ! i \<le> d \<and> d < split ! Suc i)" using "1.prems"(2) by simp
    show ?thesis
    proof (cases "i = 0 \<and> d < split ! i")
      case True
      show ?thesis
        by (simp only: unfold if_P [OF in_range] if_P [OF True])
    next
      case False
      have "get_group_loop split d i = get_group_loop split d (Suc i)"
        by (simp only: unfold if_P [OF in_range] if_not_P [OF False] if_not_P [OF above])
      also have "\<dots> = - 1"
        using "1.IH" [OF in_range False above "1.prems"] .
      finally show ?thesis .
    qed
  qed
qed

lemma get_group_loop_below:
  assumes "d < split ! 0"
  shows "get_group_loop split d 0 = - 1"
  using assms get_group_loop.simps [of split d 0] by simp

lemma get_group_loop_inside:
  assumes "Suc i < length split" "split ! i \<le> d" "d < last split"
  shows "0 \<le> get_group_loop split d i"
  using assms
proof (induction split d i rule: get_group_loop.induct)
  case (1 split d i)
  note unfold = get_group_loop.simps [of split d i]
  note in_range = "1.prems"(1)
  have not_below: "\<not> (i = 0 \<and> d < split ! i)" using "1.prems"(2) by simp
  show ?case
  proof (cases "split ! i \<le> d \<and> d < split ! Suc i")
    case True
    have "get_group_loop split d i = int i"
      by (simp only: unfold if_P [OF in_range] if_not_P [OF not_below] if_P [OF True])
    then show ?thesis by simp
  next
    case False
    then have ge: "split ! Suc i \<le> d" using "1.prems"(2) by simp
    have "Suc i \<noteq> length split - 1"
    proof
      assume "Suc i = length split - 1"
      then have "last split = split ! Suc i"
        using in_range by (metis last_conv_nth length_0_conv not_less_zero)
      then show False using ge "1.prems"(3) by simp
    qed
    then have next_in_range: "Suc (Suc i) < length split" using in_range by simp
    have "get_group_loop split d i = get_group_loop split d (Suc i)"
      by (simp only: unfold if_P [OF in_range] if_not_P [OF not_below] if_not_P [OF False])
    then show ?thesis
      using "1.IH" [OF in_range not_below False next_in_range ge "1.prems"(3)] by simp
  qed
qed

lemma get_group_range:
  "get_group split pos direction = - 1
     \<or> (0 \<le> get_group split pos direction \<and> get_group split pos direction < int (length split) - 1)"
  using get_group_loop_range [of split "coordinate direction pos" 0]
  by (auto simp: get_group_def)

lemma get_group_out_of_bounds_iff:
  assumes "\<forall>b\<in>set split. b \<le> last split" "2 \<le> length split"
  shows "get_group split (position a) direction = - 1 \<longleftrightarrow> out_of_bounds split direction a"
proof
  assume "out_of_bounds split direction a"
  then show "get_group split (position a) direction = - 1"
    using assms(1) get_group_loop_above get_group_loop_below
    by (auto simp: out_of_bounds_def get_group_def)
next
  assume m: "get_group split (position a) direction = - 1"
  show "out_of_bounds split direction a"
  proof (rule ccontr)
    assume "\<not> out_of_bounds split direction a"
    then have "split ! 0 \<le> coordinate direction (position a)"
        "coordinate direction (position a) < last split"
      by (simp_all add: out_of_bounds_def)
    moreover have "Suc 0 < length split" using assms(2) by simp
    ultimately have "0 \<le> get_group_loop split (coordinate direction (position a)) 0"
      by (rule get_group_loop_inside [rotated 1])
    then show False using m by (simp add: get_group_def)
  qed
qed

lemma list_increment_slot:
  assumes "i = - 1 \<or> (0 \<le> i \<and> i < int (length counts))" "counts \<noteq> []"
  shows "slot (length counts) i < length counts
           \<and> list_increment counts i
                = Inr (counts[slot (length counts) i := counts ! slot (length counts) i + 1])"
proof -
  obtain n where n: "length counts = Suc n" using assms(2) by (cases counts) auto
  show ?thesis using assms(1) by (auto simp: list_increment_def slot_def Let_def n)
qed

lemma assign_groups_loop_counts:
  assumes "2 \<le> length split" "length counts = length split - 1"
  shows "\<exists>counts'.
           assign_groups_loop split direction counts atoms
             = (Inr counts', map (\<lambda>a. a\<lparr>tag := get_group split (position a) direction\<rparr>) atoms)
           \<and> length counts' = length counts
           \<and> (\<forall>g<length counts. counts' ! g = counts ! g
                  + int (length (filter (\<lambda>a. slot (length counts) (get_group split (position a) direction) = g)
                                   atoms)))"
  using assms(2)
proof (induction atoms arbitrary: counts)
  case Nil
  then show ?case by simp
next
  case (Cons a atoms)
  let ?i = "get_group split (position a) direction"
  let ?n = "length counts"
  let ?j = "slot ?n ?i"
  let ?c1 = "counts[?j := counts ! ?j + 1]"
  have ne: "counts \<noteq> []" using Cons.prems assms(1) by auto
  have "?i = - 1 \<or> (0 \<le> ?i \<and> ?i < int ?n)"
    using get_group_range [of split "position a" direction] Cons.prems assms(1) by auto
  then have j: "?j < ?n" and inc: "list_increment counts ?i = Inr ?c1"
    using list_increment_slot [OF _ ne] by blast+
  have l1: "length ?c1 = length split - 1" using Cons.prems by simp
  obtain counts' where
    r: "assign_groups_loop split direction ?c1 atoms
          = (Inr counts', map (\<lambda>a. a\<lparr>tag := get_group split (position a) direction\<rparr>) atoms)"
    and l: "length counts' = length ?c1"
    and c: "\<forall>g<length ?c1. counts' ! g = ?c1 ! g
              + int (length (filter (\<lambda>a. slot (length ?c1) (get_group split (position a) direction) = g)
                               atoms))"
    using Cons.IH [OF l1] by blast
  have "assign_groups_loop split direction counts (a # atoms)
          = (Inr counts', map (\<lambda>a. a\<lparr>tag := get_group split (position a) direction\<rparr>) (a # atoms))"
    using inc r by (simp add: Let_def)
  moreover have "length counts' = ?n" using l by simp
  moreover have "counts' ! g = counts ! g
      + int (length (filter (\<lambda>a. slot ?n (get_group split (position a) direction) = g) (a # atoms)))"
    if "g < ?n" for g
    using c [rule_format, of g] that j by (cases "g = ?j") auto
  ultimately show ?case by blast
qed

lemma length_filter_disjoint:
  assumes "\<forall>x\<in>set xs. \<not> (P x \<and> Q x)"
  shows "length (filter (\<lambda>x. P x \<or> Q x) xs) = length (filter P xs) + length (filter Q xs)"
  using assms by (induction xs) auto

text \<open>
  C10, as amended: for a split as the docstring describes it, at least two boundaries (one
  group) of which the last is the upper one (no boundary lies above it), an atom whose
  coordinate is below \<open>split[0]\<close> or not below \<open>split[-1]\<close> makes \<^verbatim>\<open>__get_group\<close> return
  \<open>-1\<close>; nothing is raised.
  \<^verbatim>\<open>assign_groups\<close> gives every atom the tag that \<^verbatim>\<open>__get_group\<close> returns, so \<open>-1\<close> to
  these atoms, and \<^verbatim>\<open>counts[-1]\<close>, the count of the last group, is the number of atoms of the
  last group plus the number of atoms out of bounds.
\<close>

theorem assign_groups_out_of_bounds:
  assumes "\<forall>b\<in>set split. b \<le> last split" "2 \<le> length split"
  shows "\<exists>counts.
           assign_groups split atoms direction
             = (Inr counts, map (\<lambda>a. a\<lparr>tag := get_group split (position a) direction\<rparr>) atoms)
           \<and> length counts = length split - 1
           \<and> (\<forall>a\<in>set atoms. out_of_bounds split direction a
                  \<longrightarrow> get_group split (position a) direction = - 1)
           \<and> last counts
               = int (length (filter (\<lambda>a. get_group split (position a) direction = int (length split) - 2) atoms))
                 + int (length (filter (out_of_bounds split direction) atoms))"
proof -
  let ?n = "length split - 1"
  let ?grp = "\<lambda>a. get_group split (position a) direction"
  have n: "0 < ?n" using assms(2) by simp
  obtain counts where
    r: "assign_groups split atoms direction = (Inr counts, map (\<lambda>a. a\<lparr>tag := ?grp a\<rparr>) atoms)"
    and l: "length counts = ?n"
    and c: "\<forall>g<?n. counts ! g
              = replicate ?n 0 ! g + int (length (filter (\<lambda>a. slot ?n (?grp a) = g) atoms))"
    using assign_groups_loop_counts [OF assms(2), of "replicate ?n 0" direction atoms]
    by (auto simp: assign_groups_def)
  have oob: "?grp a = - 1 \<longleftrightarrow> out_of_bounds split direction a" for a
    using get_group_out_of_bounds_iff [OF assms] .
  have s: "slot ?n (?grp a) = ?n - 1 \<longleftrightarrow> ?grp a = int (length split) - 2 \<or> ?grp a = - 1" for a
    using get_group_range [of split "position a" direction] assms(2)
    by (auto simp: slot_def)
  have "last counts = counts ! (?n - 1)" using l n by (metis last_conv_nth length_0_conv less_numeral_extra(3))
  also have "\<dots> = int (length (filter (\<lambda>a. slot ?n (?grp a) = ?n - 1) atoms))"
    using c [rule_format, of "?n - 1"] n by simp
  also have "(\<lambda>a. slot ?n (?grp a) = ?n - 1)
               = (\<lambda>a. ?grp a = int (length split) - 2 \<or> out_of_bounds split direction a)"
    using s oob by auto
  also have "length (filter (\<lambda>a. ?grp a = int (length split) - 2 \<or> out_of_bounds split direction a) atoms)
               = length (filter (\<lambda>a. ?grp a = int (length split) - 2) atoms)
                 + length (filter (out_of_bounds split direction) atoms)"
  proof (rule length_filter_disjoint)
    show "\<forall>a\<in>set atoms. \<not> (?grp a = int (length split) - 2 \<and> out_of_bounds split direction a)"
    proof (intro ballI notI)
      fix a
      assume h: "?grp a = int (length split) - 2 \<and> out_of_bounds split direction a"
      then have "?grp a = - 1" using oob by blast
      then have "int (length split) - 2 = - 1" using h by simp
      then show False using assms(2) by linarith
    qed
  qed
  finally have "last counts
      = int (length (filter (\<lambda>a. ?grp a = int (length split) - 2) atoms))
        + int (length (filter (out_of_bounds split direction) atoms))"
    by simp
  then show ?thesis using r l oob by blast
qed

theorem assign_groups_out_of_bounds_witness:
  "last [0, 1, 2 :: real] = 2 \<and> 2 \<le> length [0, 1, 2 :: real]
   \<and> out_of_bounds [0, 1, 2] ''x'' \<lparr>position = (- 1, 0, 0), tag = 7\<rparr>
   \<and> out_of_bounds [0, 1, 2] ''x'' \<lparr>position = (2, 0, 0), tag = 7\<rparr>
   \<and> (\<exists>counts.
         assign_groups [0, 1, 2]
           [\<lparr>position = (1 / 2, 0, 0), tag = 7\<rparr>, \<lparr>position = (3 / 2, 0, 0), tag = 7\<rparr>,
            \<lparr>position = (- 1, 0, 0), tag = 7\<rparr>, \<lparr>position = (2, 0, 0), tag = 7\<rparr>] ''x''
           = (Inr counts,
              [\<lparr>position = (1 / 2, 0, 0), tag = 0\<rparr>, \<lparr>position = (3 / 2, 0, 0), tag = 1\<rparr>,
               \<lparr>position = (- 1, 0, 0), tag = - 1\<rparr>, \<lparr>position = (2, 0, 0), tag = - 1\<rparr>])
         \<and> length counts = 2 \<and> last counts = 3)"
proof -
  let ?split = "[0, 1, 2 :: real]"
  let ?atoms = "[\<lparr>position = (1 / 2, 0, 0), tag = 7\<rparr>, \<lparr>position = (3 / 2, 0, 0), tag = 7\<rparr>,
                 \<lparr>position = (- 1, 0, 0), tag = 7\<rparr>, \<lparr>position = (2 :: real, 0 :: real, 0 :: real), tag = 7 :: int\<rparr>]"
  have h: "\<forall>b\<in>set ?split. b \<le> last ?split" "2 \<le> length ?split" by simp_all
  have h': "last ?split = 2" by simp
  have g: "get_group ?split (1 / 2, 0, 0) ''x'' = 0" "get_group ?split (3 / 2, 0, 0) ''x'' = 1"
      "get_group ?split (- 1, 0, 0) ''x'' = - 1" "get_group ?split (2, 0, 0) ''x'' = - 1"
    by (simp_all add: get_group_def coordinate_def get_group_loop.simps)
  have o: "out_of_bounds ?split ''x'' \<lparr>position = (- 1, 0, 0), tag = 7\<rparr>"
      "out_of_bounds ?split ''x'' \<lparr>position = (2, 0, 0), tag = 7\<rparr>"
      "\<not> out_of_bounds ?split ''x'' \<lparr>position = (1 / 2, 0, 0), tag = 7\<rparr>"
      "\<not> out_of_bounds ?split ''x'' \<lparr>position = (3 / 2, 0, 0), tag = 7\<rparr>"
    by (simp_all add: out_of_bounds_def coordinate_def)
  obtain counts where
    r: "assign_groups ?split ?atoms ''x''
          = (Inr counts, map (\<lambda>a. a\<lparr>tag := get_group ?split (position a) ''x''\<rparr>) ?atoms)"
    and l: "length counts = length ?split - 1"
    and c: "last counts
              = int (length (filter (\<lambda>a. get_group ?split (position a) ''x'' = int (length ?split) - 2) ?atoms))
                + int (length (filter (out_of_bounds ?split ''x'') ?atoms))"
    using assign_groups_out_of_bounds [OF h, of ?atoms "''x''"] by blast
  have "last counts = 3" using c g o by simp
  then show ?thesis using h' h(2) o r l g by simp
qed

text \<open>
  C10 as stated fails for other splits. With the boundaries \<open>[0, 10, 5]\<close> an atom at 7 is
  not below \<open>split[-1] = 5\<close>, yet \<^verbatim>\<open>__get_group\<close> puts it in group 0 and \<^verbatim>\<open>assign_groups\<close>
  counts it there, not in \<^verbatim>\<open>counts[-1]\<close>. With the single boundary \<open>[5]\<close> there is no group:
  \<^verbatim>\<open>counts\<close> is empty, and \<^verbatim>\<open>counts[-1] += 1\<close> raises \<^verbatim>\<open>IndexError\<close> once the tag is set.
\<close>

theorem assign_groups_out_of_bounds_counterexample:
  "out_of_bounds [0, 10, 5] ''x'' \<lparr>position = (7, 0, 0), tag = 3\<rparr>
   \<and> get_group [0, 10, 5] (7, 0, 0) ''x'' = 0
   \<and> assign_groups [0, 10, 5] [\<lparr>position = (7, 0, 0), tag = 3\<rparr>] ''x''
       = (Inr [1, 0], [\<lparr>position = (7, 0, 0), tag = 0\<rparr>])
   \<and> out_of_bounds [5] ''x'' \<lparr>position = (7, 0, 0), tag = 3\<rparr>
   \<and> get_group [5] (7, 0, 0) ''x'' = - 1
   \<and> assign_groups [5] [\<lparr>position = (7, 0, 0), tag = 3\<rparr>] ''x''
       = (Inl IndexError, [\<lparr>position = (7, 0, 0), tag = - 1\<rparr>])"
proof -
  have g: "get_group [0, 10, 5] (7, 0, 0) ''x'' = 0" "get_group [5] (7, 0, 0) ''x'' = - 1"
    by (simp_all add: get_group_def coordinate_def get_group_loop.simps)
  have o: "out_of_bounds [0, 10, 5] ''x'' \<lparr>position = (7, 0, 0), tag = 3\<rparr>"
      "out_of_bounds [5] ''x'' \<lparr>position = (7, 0, 0), tag = 3\<rparr>"
    by (simp_all add: out_of_bounds_def coordinate_def)
  have a: "assign_groups [0, 10, 5] [\<lparr>position = (7, 0, 0), tag = 3\<rparr>] ''x''
             = (Inr [1, 0], [\<lparr>position = (7, 0, 0), tag = 0\<rparr>])"
    by (simp add: assign_groups_def g list_increment_def Let_def)
  have b: "assign_groups [5] [\<lparr>position = (7, 0, 0), tag = 3\<rparr>] ''x''
             = (Inl IndexError, [\<lparr>position = (7, 0, 0), tag = - 1\<rparr>])"
    by (simp add: assign_groups_def g list_increment_def Let_def)
  show ?thesis using g o a b by (intro conjI)
qed

section \<open>Properties of the modal conductivity engine\<close>

subsection \<open>Sequences of statements\<close>

lemma atomic_results:
  "(f d = Inl e \<longrightarrow> atomic f d = (Inl e, d)) \<and> (f d = Inr d' \<longrightarrow> atomic f d = (Inr (), d'))"
  by (simp add: atomic_def)

lemma atomic_success:
  assumes "fst (atomic f d) = Inr u"
  shows "f d = Inr (snd (atomic f d))"
  using assms by (cases "f d") (simp_all add: atomic_def)

lemma atomic_snd:
  "snd (atomic f d) = (case f d of Inl e \<Rightarrow> d | Inr d' \<Rightarrow> d')"
  by (cases "f d") (simp_all add: atomic_def)

lemma run_append:
  "run (ss @ ts) d =
     (case run ss d of (Inl e, d') \<Rightarrow> (Inl e, d') | (Inr u, d') \<Rightarrow> run ts d')"
proof (induction ss arbitrary: d)
  case Nil
  then show ?case by simp
next
  case (Cons s ss)
  obtain r d1 where s: "s d = (r, d1)" by (cases "s d")
  show ?case using s Cons.IH [of d1] by (cases r) simp_all
qed

lemma run_success_append:
  assumes "fst (run (ss @ ts) d) = Inr u"
  shows "fst (run ss d) = Inr () \<and> fst (run ts (snd (run ss d))) = Inr ()
           \<and> snd (run (ss @ ts) d) = snd (run ts (snd (run ss d)))"
proof -
  obtain r d1 where s: "run ss d = (r, d1)" by (cases "run ss d")
  show ?thesis using assms s by (cases r) (simp_all add: run_append)
qed

lemma run_preserves:
  assumes "\<forall>s\<in>set ss. preserves P s" "P d"
  shows "P (snd (run ss d))"
  using assms
proof (induction ss arbitrary: d)
  case Nil
  then show ?case by simp
next
  case (Cons s ss)
  obtain r d1 where s: "s d = (r, d1)" by (cases "s d")
  have p1: "P d1" using Cons.prems s by (auto simp: preserves_def dest: spec [of _ d])
  show ?case
  proof (cases r)
    case (Inl e)
    then show ?thesis using s p1 by simp
  next
    case (Inr u)
    then show ?thesis using s Cons.IH [of d1] Cons.prems p1 by simp
  qed
qed

lemma run_reaches:
  assumes "fst (run ss d) = Inr u" "\<forall>s\<in>set ss. preserves P s" "P d" "s \<in> set ss"
  shows "\<exists>d1. P d1 \<and> fst (s d1) = Inr ()"
  using assms
proof (induction ss arbitrary: d)
  case Nil
  then show ?case by simp
next
  case (Cons t ss)
  obtain r d1 where t: "t d = (r, d1)" by (cases "t d")
  have r: "r = Inr ()" using Cons.prems(1) t by (cases r) simp_all
  have p1: "P d1" using Cons.prems(2,3) t by (auto simp: preserves_def dest: spec [of _ d])
  show ?case
  proof (cases "s = t")
    case True
    then show ?thesis using t r Cons.prems(3) by auto
  next
    case False
    then have "s \<in> set ss" using Cons.prems(4) by simp
    moreover have "fst (run ss d1) = Inr u" using Cons.prems(1) t r by simp
    ultimately show ?thesis using Cons.IH [of d1] Cons.prems(2) p1 by simp
  qed
qed

lemma keeps_run:
  assumes "\<forall>s\<in>set ss. keeps key s"
  shows "keeps key (run ss)"
proof -
  have "snd (run ss d) key = d key" for d
    using assms
  proof (induction ss arbitrary: d)
    case Nil
    then show ?case by simp
  next
    case (Cons s ss)
    obtain r d1 where s: "s d = (r, d1)" by (cases "s d")
    have k: "d1 key = d key" using Cons.prems s by (auto simp: keeps_def dest: spec [of _ d])
    show ?case using s k Cons.IH [of d1] Cons.prems by (cases r) simp_all
  qed
  then show ?thesis by (simp add: keeps_def)
qed

lemma keeps_atomic_update:
  assumes "\<And>d d'. f d = Inr d' \<Longrightarrow> \<exists>v. d' = d(k \<mapsto> v)" "key \<noteq> k"
  shows "keeps key (atomic f)"
proof -
  have "snd (atomic f d) key = d key" for d
  proof (cases "f d")
    case (Inl e)
    then show ?thesis by (simp add: atomic_def)
  next
    case (Inr d')
    then obtain v where "d' = d(k \<mapsto> v)" using assms(1) by blast
    then show ?thesis using Inr assms(2) by (simp add: atomic_def)
  qed
  then show ?thesis by (simp add: keeps_def)
qed

lemma and_then_Inr:
  "and_then m f = Inr y \<longleftrightarrow> (\<exists>x. m = Inr x \<and> f x = Inr y)"
  by (cases m) (simp_all add: and_then_def)

lemma keeps_allocate:
  assumes "key \<noteq> k"
  shows "keeps key (allocate k nbins sz)"
  unfolding allocate_def
  by (rule keeps_atomic_update [OF _ assms]) (auto split: if_splits)

lemma keeps_correlate_row:
  assumes "key \<noteq> ckey"
  shows "keeps key (correlate_row corr ckey src j max_lag m)"
  unfolding correlate_row_def
  by (rule keeps_atomic_update [OF _ assms]) (auto simp: and_then_Inr)

lemma keeps_integrate_row:
  assumes "key \<noteq> kkey"
  shows "keeps key (integrate_row kkey ckey scale m)"
  unfolding integrate_row_def
  by (rule keeps_atomic_update [OF _ assms]) (auto simp: and_then_Inr)

lemma keeps_rescale_tau:
  assumes "key \<noteq> ''tau''"
  shows "keeps key rescale_tau"
  unfolding rescale_tau_def
  by (rule keeps_atomic_update [OF _ assms]) (auto simp: and_then_Inr)

lemma keeps_guarded:
  assumes "keeps key s"
  shows "keeps key (guarded b s)"
  using assms by (simp add: keeps_def guarded_def)

lemma keeps_single_direction:
  assumes "key \<noteq> cm" "key \<noteq> km"
  shows "keeps key (single_direction corr missing jm cm km nbins sz max_lag scale)"
proof -
  let ?ss = "\<lambda>j. [allocate cm nbins sz, allocate km nbins sz]
                 @ concat (map (\<lambda>m. [correlate_row corr cm jm j max_lag m,
                                       integrate_row km cm scale m]) [0..<nat nbins])"
  have k: "keeps key (run (?ss j))" for j
    by (rule keeps_run)
       (auto simp: keeps_allocate keeps_correlate_row keeps_integrate_row assms)
  have "snd (single_direction corr missing jm cm km nbins sz max_lag scale d) key = d key" for d
    using k by (auto simp: single_direction_def keeps_def split: sum.splits)
  then show ?thesis by (simp add: keeps_def)
qed

lemma keeps_in_out_direction:
  assumes "key \<noteq> ci" "key \<noteq> co" "key \<noteq> ki" "key \<noteq> ko"
  shows "keeps key (in_out_direction corr missing ji jo ci co ki ko nbins sz max_lag scale)"
proof -
  let ?ss = "\<lambda>j. [allocate ci nbins sz, allocate co nbins sz,
                  allocate ki nbins sz, allocate ko nbins sz]
                 @ concat (map (\<lambda>m. [correlate_row corr ci ji j max_lag m,
                                       integrate_row ki ci scale m,
                                       correlate_row corr co jo j max_lag m,
                                       integrate_row ko co scale m]) [0..<nat nbins])"
  have k: "keeps key (run (?ss j))" for j
    by (rule keeps_run)
       (auto simp: keeps_allocate keeps_correlate_row keeps_integrate_row assms)
  have "snd (in_out_direction corr missing ji jo ci co ki ko nbins sz max_lag scale d) key = d key"
    for d
    using k by (auto simp: in_out_direction_def keeps_def split: sum.splits)
  then show ?thesis by (simp add: keeps_def)
qed

lemma run_Cons_success:
  assumes "fst (run (s # ss) d) = Inr u"
  shows "fst (s d) = Inr () \<and> fst (run ss (snd (s d))) = Inr u
           \<and> snd (run (s # ss) d) = snd (run ss (snd (s d)))"
proof -
  obtain r d1 where s: "s d = (r, d1)" by (cases "s d")
  show ?thesis using assms s by (cases r) simp_all
qed

subsection \<open>The loop over the bins of one channel\<close>

lemma set_row_result:
  assumes "set_row (Arr2 A) m v = Inr t"
  shows "\<exists>r. t = Arr2 (A[m := r]) \<and> m < length A \<and> length r = length (A ! m)
           \<and> (r = v \<or> (length v = 1 \<and> r = replicate (length (A ! m)) (hd v)))"
  using assms by (auto split: if_splits)

lemma rows_after_update:
  assumes "\<forall>r\<in>set A. Q r" "Q r"
  shows "\<forall>r'\<in>set (A[m := r]). Q r'"
  using assms set_update_subset_insert [of A m r] by auto

lemma preserves_by_keeps:
  assumes "keeps ckey s" "keeps kkey s" "keeps ''tau'' s"
  shows "preserves (channel_invariant tau n w ckey kkey) s"
  using assms
  by (simp add: preserves_def keeps_def channel_invariant_def shaped_def zero_seeded_def)

lemma preserves_correlate_row:
  assumes "ckey \<noteq> kkey" "ckey \<noteq> ''tau''"
  shows "preserves (channel_invariant tau n w ckey kkey) (correlate_row corr ckey src j max_lag m)"
proof -
  let ?f = "\<lambda>d. and_then (lookup d src) (\<lambda>a.
       and_then (get_row a m) (\<lambda>r.
       and_then (corr r j max_lag) (\<lambda>c.
       and_then (lookup d ckey) (\<lambda>t.
       and_then (set_row t m c) (\<lambda>t'. Inr (d(ckey \<mapsto> t')))))))"
  have "channel_invariant tau n w ckey kkey (snd (atomic ?f d))"
    if inv: "channel_invariant tau n w ckey kkey d" for d
  proof (cases "?f d")
    case (Inl e)
    then show ?thesis using inv by (simp add: atomic_def)
  next
    case (Inr d')
    then obtain t c t' where t: "lookup d ckey = Inr t" and st: "set_row t m c = Inr t'"
        and d': "d' = d(ckey \<mapsto> t')"
      by (auto simp: and_then_Inr)
    obtain A where A: "d ckey = Some (Arr2 A)" "length A = n" "\<forall>r\<in>set A. length r = w"
      using inv by (auto simp: channel_invariant_def shaped_def)
    have "t = Arr2 A" using t A by (simp add: lookup_def)
    then obtain r where r: "t' = Arr2 (A[m := r])" "m < length A" "length r = length (A ! m)"
      using st set_row_result by blast
    have "length r = w" using r A by simp
    then have "\<forall>r'\<in>set (A[m := r]). length r' = w" using A(3) by (rule rows_after_update [rotated])
    then have "shaped n w ckey d'" using d' r A by (simp add: shaped_def)
    moreover have "d' ''tau'' = Some tau" "zero_seeded n w kkey d'"
      using inv d' assms by (auto simp: channel_invariant_def zero_seeded_def)
    ultimately show ?thesis using Inr by (simp add: atomic_def channel_invariant_def)
  qed
  then show ?thesis by (simp add: preserves_def correlate_row_def)
qed

lemma cumtrapz_over_result:
  assumes "cumtrapz_over y x = Inr F"
  shows "(\<exists>xs. x = Arr1 xs) \<and> F \<noteq> [] \<and> F ! 0 = 0 \<and> length F = length y"
proof (cases x)
  case (Arr1 xs)
  then show ?thesis using assms cumtrapz_zero_seeded [of y xs F] by simp
qed (use assms in simp_all)

lemma preserves_integrate_row:
  assumes "kkey \<noteq> ckey" "kkey \<noteq> ''tau''"
  shows "preserves (channel_invariant tau n w ckey kkey) (integrate_row kkey ckey scale m)"
proof -
  let ?f = "\<lambda>d. and_then (lookup d ckey) (\<lambda>a.
       and_then (get_row a m) (\<lambda>y.
       and_then (lookup d ''tau'') (\<lambda>x.
       and_then (cumtrapz_over y x) (\<lambda>F.
       and_then (lookup d kkey) (\<lambda>t.
       and_then (set_row t m (map (\<lambda>v. v * scale) F)) (\<lambda>t'. Inr (d(kkey \<mapsto> t'))))))))"
  have "channel_invariant tau n w ckey kkey (snd (atomic ?f d))"
    if inv: "channel_invariant tau n w ckey kkey d" for d
  proof (cases "?f d")
    case (Inl e)
    then show ?thesis using inv by (simp add: atomic_def)
  next
    case (Inr d')
    then obtain y x F t t' where F: "cumtrapz_over y x = Inr F" and t: "lookup d kkey = Inr t"
        and st: "set_row t m (map (\<lambda>v. v * scale) F) = Inr t'" and d': "d' = d(kkey \<mapsto> t')"
      by (auto simp: and_then_Inr)
    let ?v = "map (\<lambda>v. v * scale) F"
    have Fz: "F \<noteq> []" "F ! 0 = 0" using cumtrapz_over_result [OF F] by simp_all
    then have v: "?v \<noteq> []" "?v ! 0 = 0" "hd ?v = 0" by (simp_all add: hd_conv_nth)
    obtain B where B: "d kkey = Some (Arr2 B)" "length B = n"
        "\<forall>r\<in>set B. length r = w \<and> (0 < w \<longrightarrow> r ! 0 = 0)"
      using inv by (auto simp: channel_invariant_def zero_seeded_def)
    have "t = Arr2 B" using t B by (simp add: lookup_def)
    then obtain r where r: "t' = Arr2 (B[m := r])" "m < length B" "length r = length (B ! m)"
        "r = ?v \<or> (length ?v = 1 \<and> r = replicate (length (B ! m)) (hd ?v))"
      using st set_row_result by blast
    have "length r = w" using r B by simp
    moreover have "0 < w \<longrightarrow> r ! 0 = 0"
      using r(4) v \<open>length r = w\<close> by auto
    ultimately have "\<forall>r'\<in>set (B[m := r]). length r' = w \<and> (0 < w \<longrightarrow> r' ! 0 = 0)"
      using B(3) by (intro rows_after_update) simp_all
    then have "zero_seeded n w kkey d'" using d' r B by (simp add: zero_seeded_def)
    moreover have "d' ''tau'' = Some tau" "shaped n w ckey d'"
      using inv d' assms by (auto simp: channel_invariant_def shaped_def)
    ultimately show ?thesis using Inr by (simp add: atomic_def channel_invariant_def)
  qed
  then show ?thesis by (simp add: preserves_def integrate_row_def)
qed

lemma integrate_row_success:
  assumes "channel_invariant tau n w ckey kkey d"
      "fst (integrate_row kkey ckey scale m d) = Inr u"
  shows "(\<exists>xs. tau = Arr1 xs) \<and> 0 < w"
proof -
  let ?f = "\<lambda>d. and_then (lookup d ckey) (\<lambda>a.
       and_then (get_row a m) (\<lambda>y.
       and_then (lookup d ''tau'') (\<lambda>x.
       and_then (cumtrapz_over y x) (\<lambda>F.
       and_then (lookup d kkey) (\<lambda>t.
       and_then (set_row t m (map (\<lambda>v. v * scale) F)) (\<lambda>t'. Inr (d(kkey \<mapsto> t'))))))))"
  have "\<exists>d'. ?f d = Inr d'"
    using atomic_success [of ?f d u] assms(2) by (auto simp: integrate_row_def)
  then obtain a y x F where a: "lookup d ckey = Inr a" and y: "get_row a m = Inr y"
      and x: "lookup d ''tau'' = Inr x" and F: "cumtrapz_over y x = Inr F"
    by (auto simp: and_then_Inr)
  obtain A where A: "d ckey = Some (Arr2 A)" "\<forall>r\<in>set A. length r = w"
    using assms(1) by (auto simp: channel_invariant_def shaped_def)
  have "a = Arr2 A" using a A by (simp add: lookup_def)
  then have "m < length A" "y = A ! m" using y by (auto split: if_splits)
  then have ly: "length y = w" using A(2) by simp
  have "x = tau" using x assms(1) by (simp add: lookup_def channel_invariant_def)
  then show ?thesis using cumtrapz_over_result [OF F] ly by auto
qed

subsection \<open>The blocks of the directions\<close>

lemma allocate_success:
  assumes "fst (allocate key nbins sz d) = Inr u"
  shows "0 \<le> nbins \<and> 0 \<le> sz
           \<and> snd (allocate key nbins sz d)
                = d(key \<mapsto> Arr2 (replicate (nat nbins) (replicate (nat sz) 0)))"
  using assms by (auto simp: allocate_def atomic_def split: if_splits)

lemma zeros_shaped:
  assumes "d key = Some (Arr2 (replicate n (replicate w 0)))"
  shows "shaped n w key d \<and> zero_seeded n w key d"
  using assms by (simp add: shaped_def zero_seeded_def)

lemma single_direction_success:
  assumes ok: "fst (single_direction corr missing jm cm km nbins sz max_lag scale d) = Inr u"
    and tau: "d ''tau'' = Some tau"
    and keys: "cm \<noteq> km" "cm \<noteq> ''tau''" "km \<noteq> ''tau''"
  shows "0 \<le> nbins \<and> 0 \<le> sz
           \<and> channel_invariant tau (nat nbins) (nat sz) cm km
               (snd (single_direction corr missing jm cm km nbins sz max_lag scale d))
           \<and> (0 < nbins \<longrightarrow> (\<exists>xs. tau = Arr1 xs) \<and> 0 < sz)"
proof -
  let ?inv = "channel_invariant tau (nat nbins) (nat sz) cm km"
  let ?allocs = "[allocate cm nbins sz, allocate km nbins sz]"
  let ?body = "\<lambda>j m. [correlate_row corr cm jm j max_lag m, integrate_row km cm scale m]"
  let ?loop = "\<lambda>j. concat (map (?body j) [0..<nat nbins])"
  have present: "d jm \<noteq> None" using ok by (auto simp: single_direction_def split: if_splits)
  then obtain j where
    r: "single_direction corr missing jm cm km nbins sz max_lag scale d = run (?allocs @ ?loop j) d"
    using ok by (auto simp: single_direction_def split: sum.splits if_splits)
  have ok': "fst (run (?allocs @ ?loop j) d) = Inr u" using ok r by simp
  define d1 where "d1 = snd (run ?allocs d)"
  have a: "fst (run ?allocs d) = Inr ()" and l: "fst (run (?loop j) d1) = Inr ()"
    and e: "snd (run (?allocs @ ?loop j) d) = snd (run (?loop j) d1)"
    using run_success_append [OF ok'] by (simp_all add: d1_def)
  define da where "da = snd (allocate cm nbins sz d)"
  have a1: "fst (allocate cm nbins sz d) = Inr ()"
    and a2: "fst (run [allocate km nbins sz] da) = Inr ()"
    and e1: "d1 = snd (run [allocate km nbins sz] da)"
    using run_Cons_success [OF a] by (simp_all add: da_def d1_def)
  have a3: "fst (allocate km nbins sz da) = Inr ()"
    and e2: "d1 = snd (allocate km nbins sz da)"
    using run_Cons_success [OF a2] e1 by simp_all
  have nn: "0 \<le> nbins" "0 \<le> sz" using allocate_success [OF a1] by simp_all
  have d1: "d1 = d(cm \<mapsto> Arr2 (replicate (nat nbins) (replicate (nat sz) 0)),
                    km \<mapsto> Arr2 (replicate (nat nbins) (replicate (nat sz) 0)))"
    using allocate_success [OF a1] allocate_success [OF a3] e2 by (simp add: da_def)
  have inv1: "?inv d1"
    unfolding channel_invariant_def
    using d1 tau keys zeros_shaped [of d1 cm "nat nbins" "nat sz"]
      zeros_shaped [of d1 km "nat nbins" "nat sz"]
    by simp
  have pres: "\<forall>s\<in>set (?loop j). preserves ?inv s"
    using keys by (auto simp: preserves_correlate_row preserves_integrate_row)
  have "?inv (snd (run (?loop j) d1))" using pres inv1 by (rule run_preserves)
  then have inv: "?inv (snd (single_direction corr missing jm cm km nbins sz max_lag scale d))"
    using r e by simp
  have "(\<exists>xs. tau = Arr1 xs) \<and> 0 < sz" if "0 < nbins"
  proof -
    have "integrate_row km cm scale 0 \<in> set (?loop j)"
      using that by (auto intro!: bexI [of _ 0])
    then obtain d2 where "?inv d2" "fst (integrate_row km cm scale 0 d2) = Inr ()"
      using run_reaches [OF l pres inv1] by blast
    then have "(\<exists>xs. tau = Arr1 xs) \<and> 0 < nat sz" by (rule integrate_row_success)
    then show ?thesis by simp
  qed
  then show ?thesis using nn inv by blast
qed

lemma in_out_direction_success:
  assumes ok: "fst (in_out_direction corr missing ji jo ci co ki ko nbins sz max_lag scale d) = Inr u"
    and tau: "d ''tau'' = Some tau"
    and keys: "distinct [ci, co, ki, ko, ''tau'']"
  shows "0 \<le> nbins \<and> 0 \<le> sz
           \<and> channel_invariant tau (nat nbins) (nat sz) ci ki
               (snd (in_out_direction corr missing ji jo ci co ki ko nbins sz max_lag scale d))
           \<and> channel_invariant tau (nat nbins) (nat sz) co ko
               (snd (in_out_direction corr missing ji jo ci co ki ko nbins sz max_lag scale d))
           \<and> (0 < nbins \<longrightarrow> (\<exists>xs. tau = Arr1 xs) \<and> 0 < sz)"
proof -
  let ?invi = "channel_invariant tau (nat nbins) (nat sz) ci ki"
  let ?invo = "channel_invariant tau (nat nbins) (nat sz) co ko"
  let ?zeros = "Arr2 (replicate (nat nbins) (replicate (nat sz) 0))"
  let ?allocs = "[allocate ci nbins sz, allocate co nbins sz,
                  allocate ki nbins sz, allocate ko nbins sz]"
  let ?body = "\<lambda>j m. [correlate_row corr ci ji j max_lag m, integrate_row ki ci scale m,
                       correlate_row corr co jo j max_lag m, integrate_row ko co scale m]"
  let ?loop = "\<lambda>j. concat (map (?body j) [0..<nat nbins])"
  have present: "\<not> (d ji = None \<or> d jo = None)" using ok by (auto simp: in_out_direction_def split: if_splits)
  then obtain j where
    r: "in_out_direction corr missing ji jo ci co ki ko nbins sz max_lag scale d
          = run (?allocs @ ?loop j) d"
    using ok by (auto simp: in_out_direction_def split: sum.splits if_splits)
  have ok': "fst (run (?allocs @ ?loop j) d) = Inr u" using ok r by simp
  define d1 where "d1 = snd (run ?allocs d)"
  have a: "fst (run ?allocs d) = Inr ()" and l: "fst (run (?loop j) d1) = Inr ()"
    and e: "snd (run (?allocs @ ?loop j) d) = snd (run (?loop j) d1)"
    using run_success_append [OF ok'] by (simp_all add: d1_def)
  define da where "da = snd (allocate ci nbins sz d)"
  define db where "db = snd (allocate co nbins sz da)"
  define dc where "dc = snd (allocate ki nbins sz db)"
  have a1: "fst (allocate ci nbins sz d) = Inr ()"
    and r1: "fst (run [allocate co nbins sz, allocate ki nbins sz, allocate ko nbins sz] da) = Inr ()"
    and e1: "d1 = snd (run [allocate co nbins sz, allocate ki nbins sz, allocate ko nbins sz] da)"
    using run_Cons_success [OF a] by (simp_all add: da_def d1_def)
  have a2: "fst (allocate co nbins sz da) = Inr ()"
    and r2: "fst (run [allocate ki nbins sz, allocate ko nbins sz] db) = Inr ()"
    and e2: "d1 = snd (run [allocate ki nbins sz, allocate ko nbins sz] db)"
    using run_Cons_success [OF r1] e1 by (simp_all add: db_def)
  have a3: "fst (allocate ki nbins sz db) = Inr ()"
    and r3: "fst (run [allocate ko nbins sz] dc) = Inr ()"
    and e3: "d1 = snd (run [allocate ko nbins sz] dc)"
    using run_Cons_success [OF r2] e2 by (simp_all add: dc_def)
  have a4: "fst (allocate ko nbins sz dc) = Inr ()"
    and e4: "d1 = snd (allocate ko nbins sz dc)"
    using run_Cons_success [OF r3] e3 by simp_all
  have nn: "0 \<le> nbins" "0 \<le> sz" using allocate_success [OF a1] by simp_all
  have d1: "d1 = d(ci \<mapsto> ?zeros, co \<mapsto> ?zeros, ki \<mapsto> ?zeros, ko \<mapsto> ?zeros)"
    using allocate_success [OF a1] allocate_success [OF a2] allocate_success [OF a3]
      allocate_success [OF a4] e4
    by (simp add: da_def db_def dc_def)
  have at: "d1 ci = Some ?zeros" "d1 co = Some ?zeros" "d1 ki = Some ?zeros" "d1 ko = Some ?zeros"
      "d1 ''tau'' = Some tau"
    using d1 tau keys by auto
  have invi1: "?invi d1" and invo1: "?invo d1"
    unfolding channel_invariant_def using at zeros_shaped by simp_all
  have k: "ci \<noteq> ki" "ci \<noteq> ''tau''" "ki \<noteq> ''tau''" "co \<noteq> ko" "co \<noteq> ''tau''" "ko \<noteq> ''tau''"
      "ci \<noteq> co" "ci \<noteq> ko" "ki \<noteq> co" "ki \<noteq> ko"
    using keys by auto
  have presi: "\<forall>s\<in>set (?loop j). preserves ?invi s"
    using k
    by (auto simp: preserves_correlate_row preserves_integrate_row
             intro!: preserves_by_keeps keeps_correlate_row keeps_integrate_row)
  have preso: "\<forall>s\<in>set (?loop j). preserves ?invo s"
    using k
    by (auto simp: preserves_correlate_row preserves_integrate_row
             intro!: preserves_by_keeps keeps_correlate_row keeps_integrate_row)
  have "?invi (snd (run (?loop j) d1))" using presi invi1 by (rule run_preserves)
  moreover have "?invo (snd (run (?loop j) d1))" using preso invo1 by (rule run_preserves)
  ultimately have inv:
      "?invi (snd (in_out_direction corr missing ji jo ci co ki ko nbins sz max_lag scale d))"
      "?invo (snd (in_out_direction corr missing ji jo ci co ki ko nbins sz max_lag scale d))"
    using r e by simp_all
  have "(\<exists>xs. tau = Arr1 xs) \<and> 0 < sz" if "0 < nbins"
  proof -
    have "integrate_row ki ci scale 0 \<in> set (?loop j)"
      using that by (auto intro!: bexI [of _ 0])
    then obtain d2 where "?invi d2" "fst (integrate_row ki ci scale 0 d2) = Inr ()"
      using run_reaches [OF l presi invi1] by blast
    then have "(\<exists>xs. tau = Arr1 xs) \<and> 0 < nat sz" by (rule integrate_row_success)
    then show ?thesis by simp
  qed
  then show ?thesis using nn inv by blast
qed

subsection \<open>A call that returns\<close>

lemma get_gkma_kappa_success:
  assumes "fst (get_gkma_kappa corr get_direction data nbins nsamples dt sample_interval T vol
                  max_tau directions return_data) = Inr r"
  shows "\<exists>scale ts dirs d1 d2 d3.
           scale_gpumd_tc vol T = Inr scale
           \<and> sampling_time sample_interval dt \<noteq> 0
           \<and> linspace 0 (real_of_int (max_lag_of nsamples dt sample_interval max_tau)
                           * sampling_time sample_interval dt)
                 (max_lag_of nsamples dt sample_interval max_tau + 1) = Inr ts
           \<and> get_direction directions = Inr dirs
           \<and> fst (guarded (CHR ''x'' \<in> set dirs)
                     (x_direction corr nbins (max_lag_of nsamples dt sample_interval max_tau + 1)
                        (max_lag_of nsamples dt sample_interval max_tau) scale)
                     (data(''tau'' \<mapsto> squeeze ts))) = Inr ()
           \<and> d1 = snd (guarded (CHR ''x'' \<in> set dirs)
                     (x_direction corr nbins (max_lag_of nsamples dt sample_interval max_tau + 1)
                        (max_lag_of nsamples dt sample_interval max_tau) scale)
                     (data(''tau'' \<mapsto> squeeze ts)))
           \<and> fst (guarded (CHR ''y'' \<in> set dirs)
                     (y_direction corr nbins (max_lag_of nsamples dt sample_interval max_tau + 1)
                        (max_lag_of nsamples dt sample_interval max_tau) scale) d1) = Inr ()
           \<and> d2 = snd (guarded (CHR ''y'' \<in> set dirs)
                     (y_direction corr nbins (max_lag_of nsamples dt sample_interval max_tau + 1)
                        (max_lag_of nsamples dt sample_interval max_tau) scale) d1)
           \<and> fst (guarded (CHR ''z'' \<in> set dirs)
                     (z_direction corr nbins (max_lag_of nsamples dt sample_interval max_tau + 1)
                        (max_lag_of nsamples dt sample_interval max_tau) scale) d2) = Inr ()
           \<and> d3 = snd (guarded (CHR ''z'' \<in> set dirs)
                     (z_direction corr nbins (max_lag_of nsamples dt sample_interval max_tau + 1)
                        (max_lag_of nsamples dt sample_interval max_tau) scale) d2)
           \<and> fst (rescale_tau d3) = Inr ()
           \<and> snd (get_gkma_kappa corr get_direction data nbins nsamples dt sample_interval T vol
                     max_tau directions return_data) = snd (rescale_tau d3)"
proof -
  let ?G = "get_gkma_kappa corr get_direction data nbins nsamples dt sample_interval T vol
              max_tau directions return_data"
  let ?ml = "max_lag_of nsamples dt sample_interval max_tau"
  obtain scale where sc: "scale_gpumd_tc vol T = Inr scale"
    using assms by (cases "scale_gpumd_tc vol T") (simp_all add: get_gkma_kappa_def)
  have sr: "sampling_time sample_interval dt \<noteq> 0"
    using assms sc by (auto simp: get_gkma_kappa_def split: if_splits)
  obtain ts where ts: "linspace 0 (real_of_int ?ml * sampling_time sample_interval dt) (?ml + 1) = Inr ts"
    using assms sc sr
    by (cases "linspace 0 (real_of_int ?ml * sampling_time sample_interval dt) (?ml + 1)")
       (simp_all add: get_gkma_kappa_def Let_def)
  obtain dirs where di: "get_direction directions = Inr dirs"
    using assms sc sr ts
    by (cases "get_direction directions") (simp_all add: get_gkma_kappa_def Let_def)
  let ?bx = "guarded (CHR ''x'' \<in> set dirs) (x_direction corr nbins (?ml + 1) ?ml scale)"
  let ?by = "guarded (CHR ''y'' \<in> set dirs) (y_direction corr nbins (?ml + 1) ?ml scale)"
  let ?bz = "guarded (CHR ''z'' \<in> set dirs) (z_direction corr nbins (?ml + 1) ?ml scale)"
  let ?d0 = "data(''tau'' \<mapsto> squeeze ts)"
  have G: "?G = (case run [?bx, ?by, ?bz, rescale_tau] ?d0 of
                   (Inl e, d') \<Rightarrow> (Inl e, d')
                 | (Inr u, d') \<Rightarrow> (Inr (if return_data then Some d' else None), d'))"
    using sc sr ts di by (simp add: get_gkma_kappa_def Let_def)
  obtain q d' where run: "run [?bx, ?by, ?bz, rescale_tau] ?d0 = (q, d')"
    by (cases "run [?bx, ?by, ?bz, rescale_tau] ?d0")
  have q: "q = Inr ()" using assms G run by (cases q) simp_all
  have s0: "fst (run [?bx, ?by, ?bz, rescale_tau] ?d0) = Inr ()"
    and e0: "snd ?G = snd (run [?bx, ?by, ?bz, rescale_tau] ?d0)"
    using G run q by simp_all
  define d1 where "d1 = snd (?bx ?d0)"
  define d2 where "d2 = snd (?by d1)"
  define d3 where "d3 = snd (?bz d2)"
  have x: "fst (?bx ?d0) = Inr ()" and s1: "fst (run [?by, ?bz, rescale_tau] d1) = Inr ()"
    and e1: "snd (run [?bx, ?by, ?bz, rescale_tau] ?d0) = snd (run [?by, ?bz, rescale_tau] d1)"
    using run_Cons_success [OF s0] by (simp_all add: d1_def)
  have y: "fst (?by d1) = Inr ()" and s2: "fst (run [?bz, rescale_tau] d2) = Inr ()"
    and e2: "snd (run [?by, ?bz, rescale_tau] d1) = snd (run [?bz, rescale_tau] d2)"
    using run_Cons_success [OF s1] by (simp_all add: d2_def)
  have z: "fst (?bz d2) = Inr ()" and s3: "fst (run [rescale_tau] d3) = Inr ()"
    and e3: "snd (run [?bz, rescale_tau] d2) = snd (run [rescale_tau] d3)"
    using run_Cons_success [OF s2] by (simp_all add: d3_def)
  have t: "fst (rescale_tau d3) = Inr ()"
    and e4: "snd (run [rescale_tau] d3) = snd (rescale_tau d3)"
    using run_Cons_success [OF s3] by simp_all
  have "snd ?G = snd (rescale_tau d3)" using e0 e1 e2 e3 e4 by simp
  then show ?thesis using sc sr ts di x y z t d1_def d2_def d3_def by blast
qed

lemma linspace_axis:
  assumes "linspace 0 (real_of_int ml * srate) (ml + 1) = Inr ts"
  shows "- 1 \<le> ml \<and> ts = map (\<lambda>k. real k * srate) [0..<nat (ml + 1)]"
proof -
  have nn: "- 1 \<le> ml" using assms by (auto simp: linspace_def split: if_splits)
  show ?thesis
  proof (cases "ml = 0")
    case True
    then show ?thesis using assms by (simp add: linspace_def)
  next
    case False
    then have "ts = map (\<lambda>k. 0 + real k * ((real_of_int ml * srate - 0) / real_of_int (ml + 1 - 1)))
                      [0..<nat (ml + 1)]"
      using assms nn by (auto simp: linspace_def split: if_splits)
    moreover have "0 + real k * ((real_of_int ml * srate - 0) / real_of_int (ml + 1 - 1)) = real k * srate"
      for k
      using False by simp
    ultimately show ?thesis using nn by simp
  qed
qed

lemma squeeze_cases:
  "squeeze ts = (if length ts = 1 then Arr0 (hd ts) else Arr1 ts)"
  by (cases ts; cases "tl ts") (simp_all add: squeeze_def)

lemma keeps_x_direction:
  assumes "key \<notin> {''corr_xmi_x'', ''corr_xmo_x'', ''kmxi'', ''kmxo''}"
  shows "keeps key (guarded b (x_direction corr nbins sz max_lag scale))"
  unfolding x_direction_def
  using assms by (intro keeps_guarded keeps_in_out_direction) simp_all

lemma keeps_y_direction:
  assumes "key \<notin> {''corr_ymi_y'', ''corr_ymo_y'', ''kmyi'', ''kmyo''}"
  shows "keeps key (guarded b (y_direction corr nbins sz max_lag scale))"
  unfolding y_direction_def
  using assms by (intro keeps_guarded keeps_in_out_direction) simp_all

lemma keeps_z_direction:
  assumes "key \<notin> {''corr_zm_z'', ''kmz''}"
  shows "keeps key (guarded b (z_direction corr nbins sz max_lag scale))"
  unfolding z_direction_def
  using assms by (intro keeps_guarded keeps_single_direction) simp_all

lemma keepsD: "keeps key s \<Longrightarrow> snd (s d) key = d key"
  by (simp add: keeps_def)

lemma zero_seeded_kept:
  assumes "keeps key s" "zero_seeded n w key d"
  shows "zero_seeded n w key (snd (s d))"
  using assms by (simp add: keeps_def zero_seeded_def)

lemma rescale_tau_success:
  assumes "d ''tau'' = Some t"
  shows "rescale_tau d = (Inr (), d(''tau'' \<mapsto> np_divide_by t (10 ^ 6)))"
  using assms by (simp add: rescale_tau_def atomic_def lookup_def and_then_def)

lemma get_gkma_kappa_returns:
  assumes ok: "fst (get_gkma_kappa corr get_direction data nbins nsamples dt sample_interval T vol
                      max_tau directions return_data) = Inr r"
    and dirs: "get_direction directions = Inr dirs"
  defines "ml \<equiv> max_lag_of nsamples dt sample_interval max_tau"
    and "d' \<equiv> snd (get_gkma_kappa corr get_direction data nbins nsamples dt sample_interval T vol
                      max_tau directions return_data)"
    and "ts \<equiv> map (\<lambda>k. real k * sampling_time sample_interval dt)
                  [0..<nat (max_lag_of nsamples dt sample_interval max_tau + 1)]"
  shows "- 1 \<le> ml"
    and "d' ''tau'' = Some (np_divide_by (squeeze ts) (10 ^ 6))"
    and "CHR ''x'' \<in> set dirs \<Longrightarrow>
           zero_seeded (nat nbins) (nat (ml + 1)) ''kmxi'' d'
           \<and> zero_seeded (nat nbins) (nat (ml + 1)) ''kmxo'' d'"
    and "CHR ''y'' \<in> set dirs \<Longrightarrow>
           zero_seeded (nat nbins) (nat (ml + 1)) ''kmyi'' d'
           \<and> zero_seeded (nat nbins) (nat (ml + 1)) ''kmyo'' d'"
    and "CHR ''z'' \<in> set dirs \<Longrightarrow> zero_seeded (nat nbins) (nat (ml + 1)) ''kmz'' d'"
    and "0 < nbins \<Longrightarrow> CHR ''x'' \<in> set dirs \<or> CHR ''y'' \<in> set dirs \<or> CHR ''z'' \<in> set dirs \<Longrightarrow>
           1 \<le> ml"
proof -
  obtain scale ts' dirs' d1 d2 d3 where
    lin: "linspace 0 (real_of_int ml * sampling_time sample_interval dt) (ml + 1) = Inr ts'"
    and di: "get_direction directions = Inr dirs'"
    and x: "fst (guarded (CHR ''x'' \<in> set dirs') (x_direction corr nbins (ml + 1) ml scale)
                   (data(''tau'' \<mapsto> squeeze ts'))) = Inr ()"
    and d1: "d1 = snd (guarded (CHR ''x'' \<in> set dirs') (x_direction corr nbins (ml + 1) ml scale)
                   (data(''tau'' \<mapsto> squeeze ts')))"
    and y: "fst (guarded (CHR ''y'' \<in> set dirs') (y_direction corr nbins (ml + 1) ml scale) d1) = Inr ()"
    and d2: "d2 = snd (guarded (CHR ''y'' \<in> set dirs') (y_direction corr nbins (ml + 1) ml scale) d1)"
    and z: "fst (guarded (CHR ''z'' \<in> set dirs') (z_direction corr nbins (ml + 1) ml scale) d2) = Inr ()"
    and d3: "d3 = snd (guarded (CHR ''z'' \<in> set dirs') (z_direction corr nbins (ml + 1) ml scale) d2)"
    and e: "d' = snd (rescale_tau d3)"
    using get_gkma_kappa_success [OF ok] unfolding ml_def d'_def by blast
  have [simp]: "dirs' = dirs" using di dirs by simp
  have tsd: "ts' = ts" and ml: "- 1 \<le> ml"
    using linspace_axis [OF lin] by (simp_all add: ts_def ml_def)
  let ?d0 = "data(''tau'' \<mapsto> squeeze ts)"
  let ?bx = "guarded (CHR ''x'' \<in> set dirs) (x_direction corr nbins (ml + 1) ml scale)"
  let ?by = "guarded (CHR ''y'' \<in> set dirs) (y_direction corr nbins (ml + 1) ml scale)"
  let ?bz = "guarded (CHR ''z'' \<in> set dirs) (z_direction corr nbins (ml + 1) ml scale)"
  have t1: "d1 ''tau'' = Some (squeeze ts)"
    using keepsD [OF keeps_x_direction, of "''tau''" _ corr nbins "ml + 1" ml scale ?d0] d1 tsd
    by simp
  have t2: "d2 ''tau'' = Some (squeeze ts)"
    using keepsD [OF keeps_y_direction, of "''tau''" _ corr nbins "ml + 1" ml scale d1] d2 t1
    by simp
  have t3: "d3 ''tau'' = Some (squeeze ts)"
    using keepsD [OF keeps_z_direction, of "''tau''" _ corr nbins "ml + 1" ml scale d2] d3 t2
    by simp
  have fin: "d' = d3(''tau'' \<mapsto> np_divide_by (squeeze ts) (10 ^ 6))"
    using e t3 rescale_tau_success [of d3 "squeeze ts"] by simp
  show "- 1 \<le> ml" by (rule ml)
  show "d' ''tau'' = Some (np_divide_by (squeeze ts) (10 ^ 6))" using fin by simp
  have xs: "channel_invariant (squeeze ts) (nat nbins) (nat (ml + 1)) ''corr_xmi_x'' ''kmxi'' d1
            \<and> channel_invariant (squeeze ts) (nat nbins) (nat (ml + 1)) ''corr_xmo_x'' ''kmxo'' d1
            \<and> (0 < nbins \<longrightarrow> (\<exists>xs. squeeze ts = Arr1 xs) \<and> 0 < ml + 1)"
    if "CHR ''x'' \<in> set dirs"
    using that x d1 tsd
      in_out_direction_success [of corr "''x direction data is missing'' " "''jmxi''" "''jmxo''"
        "''corr_xmi_x''" "''corr_xmo_x''" "''kmxi''" "''kmxo''" nbins "ml + 1" ml scale ?d0 "()"
        "squeeze ts"]
    by (simp add: guarded_def x_direction_def)
  have ys: "channel_invariant (squeeze ts) (nat nbins) (nat (ml + 1)) ''corr_ymi_y'' ''kmyi'' d2
            \<and> channel_invariant (squeeze ts) (nat nbins) (nat (ml + 1)) ''corr_ymo_y'' ''kmyo'' d2
            \<and> (0 < nbins \<longrightarrow> (\<exists>xs. squeeze ts = Arr1 xs) \<and> 0 < ml + 1)"
    if "CHR ''y'' \<in> set dirs"
    using that y d2 t1
      in_out_direction_success [of corr "''y direction data is missing'' " "''jmyi''" "''jmyo''"
        "''corr_ymi_y''" "''corr_ymo_y''" "''kmyi''" "''kmyo''" nbins "ml + 1" ml scale d1 "()"
        "squeeze ts"]
    by (simp add: guarded_def y_direction_def)
  have zs: "channel_invariant (squeeze ts) (nat nbins) (nat (ml + 1)) ''corr_zm_z'' ''kmz'' d3
            \<and> (0 < nbins \<longrightarrow> (\<exists>xs. squeeze ts = Arr1 xs) \<and> 0 < ml + 1)"
    if "CHR ''z'' \<in> set dirs"
    using that z d3 t2
      single_direction_success [of corr "''z direction data is missing'' " "''jmz''"
        "''corr_zm_z''" "''kmz''" nbins "ml + 1" ml scale d2 "()" "squeeze ts"]
    by (simp add: guarded_def z_direction_def)
  have later_x: "zero_seeded n w key d'" if "zero_seeded n w key d1" "key \<in> {''kmxi'', ''kmxo''}" for n w key
  proof -
    have "zero_seeded n w key d2"
      unfolding d2 using that by (intro zero_seeded_kept keeps_y_direction) auto
    then have "zero_seeded n w key d3"
      unfolding d3 using that by (intro zero_seeded_kept keeps_z_direction) auto
    then show ?thesis using fin that(2) by (auto simp: zero_seeded_def)
  qed
  have later_y: "zero_seeded n w key d'" if "zero_seeded n w key d2" "key \<in> {''kmyi'', ''kmyo''}" for n w key
  proof -
    have "zero_seeded n w key d3"
      unfolding d3 using that by (intro zero_seeded_kept keeps_z_direction) auto
    then show ?thesis using fin that(2) by (auto simp: zero_seeded_def)
  qed
  have later_z: "zero_seeded n w ''kmz'' d'" if "zero_seeded n w ''kmz'' d3" for n w
    using fin that by (auto simp: zero_seeded_def)
  show "zero_seeded (nat nbins) (nat (ml + 1)) ''kmxi'' d'
          \<and> zero_seeded (nat nbins) (nat (ml + 1)) ''kmxo'' d'" if "CHR ''x'' \<in> set dirs"
    using xs [OF that] later_x by (simp add: channel_invariant_def)
  show "zero_seeded (nat nbins) (nat (ml + 1)) ''kmyi'' d'
          \<and> zero_seeded (nat nbins) (nat (ml + 1)) ''kmyo'' d'" if "CHR ''y'' \<in> set dirs"
    using ys [OF that] later_y by (simp add: channel_invariant_def)
  show "zero_seeded (nat nbins) (nat (ml + 1)) ''kmz'' d'" if "CHR ''z'' \<in> set dirs"
    using zs [OF that] later_z by (simp add: channel_invariant_def)
  show "1 \<le> ml"
    if "0 < nbins" "CHR ''x'' \<in> set dirs \<or> CHR ''y'' \<in> set dirs \<or> CHR ''z'' \<in> set dirs"
  proof -
    have "(\<exists>xs. squeeze ts = Arr1 xs) \<and> 0 < ml + 1" using that xs ys zs by blast
    moreover have "length ts = nat (ml + 1)" by (simp add: ts_def ml_def)
    ultimately show ?thesis by (auto simp: squeeze_cases split: if_splits)
  qed
qed

lemma returns_iff: "\<not> isl m \<longleftrightarrow> (\<exists>r. m = Inr r)"
  by (cases m) simp_all

subsection \<open>The lag-time axis\<close>

text \<open>
  The lag-time axis of a call that returns. Such a call has \<open>max_lag \<ge> -1\<close>, where
  \<open>max_lag = \<lfloor>T_max / (sample_interval \<cdot> dt)\<rfloor>\<close> with \<open>T_max\<close> the total time
  \<open>sample_interval \<cdot> dt \<cdot> (nsamples - 1)\<close> when \<open>max_tau\<close> is \<open>None\<close> and \<open>max_tau \<cdot> 10\<^sup>6\<close>
  otherwise. Its \<open>tau\<close> is the axis built once in femtoseconds, divided by \<open>10\<^sup>6\<close>: the
  one-dimensional array of length \<open>max_lag + 1\<close> with \<open>tau[k] = k \<cdot> sample_interval \<cdot> dt / 10\<^sup>6\<close>,
  unless \<open>max_lag = 0\<close>: there \<^verbatim>\<open>np.squeeze\<close> has taken the only axis away and left the
  zero-dimensional \<open>0.0\<close>, which the integration of a bin does not accept, so that a call with
  a bin to process in a requested direction returns only with \<open>max_lag \<ge> 1\<close>.
\<close>

lemma tau_axis:
  assumes "fst (get_gkma_kappa corr get_direction data nbins nsamples dt sample_interval T vol
                  max_tau directions return_data) = Inr r"
    and "get_direction directions = Inr dirs"
  shows "max_lag_of nsamples dt sample_interval max_tau
           = \<lfloor>(case max_tau of
                 None \<Rightarrow> real_of_int sample_interval * dt * real_of_int (nsamples - 1)
               | Some t \<Rightarrow> t * 10 ^ 6) / (real_of_int sample_interval * dt)\<rfloor>
         \<and> - 1 \<le> max_lag_of nsamples dt sample_interval max_tau
         \<and> snd (get_gkma_kappa corr get_direction data nbins nsamples dt sample_interval T vol
                  max_tau directions return_data) ''tau''
             = Some (if max_lag_of nsamples dt sample_interval max_tau = 0 then Arr0 0
                     else Arr1 (map (\<lambda>k. real k * (real_of_int sample_interval * dt) / 10 ^ 6)
                                  [0..<nat (max_lag_of nsamples dt sample_interval max_tau + 1)]))
         \<and> (0 < nbins \<and> (CHR ''x'' \<in> set dirs \<or> CHR ''y'' \<in> set dirs \<or> CHR ''z'' \<in> set dirs)
              \<longrightarrow> 1 \<le> max_lag_of nsamples dt sample_interval max_tau)"
proof -
  let ?ml = "max_lag_of nsamples dt sample_interval max_tau"
  let ?ts = "map (\<lambda>k. real k * sampling_time sample_interval dt) [0..<nat (?ml + 1)]"
  have a: "- 1 \<le> ?ml" using get_gkma_kappa_returns(1) [OF assms] .
  have "squeeze ?ts = (if ?ml = 0 then Arr0 0 else Arr1 ?ts)"
    using a by (auto simp: squeeze_cases hd_map)
  then have b: "np_divide_by (squeeze ?ts) (10 ^ 6)
      = (if ?ml = 0 then Arr0 0
         else Arr1 (map (\<lambda>k. real k * (real_of_int sample_interval * dt) / 10 ^ 6) [0..<nat (?ml + 1)]))"
    by (simp add: sampling_time_def)
  have c: "?ml = \<lfloor>(case max_tau of
                 None \<Rightarrow> real_of_int sample_interval * dt * real_of_int (nsamples - 1)
               | Some t \<Rightarrow> t * 10 ^ 6) / (real_of_int sample_interval * dt)\<rfloor>"
    by (cases max_tau) (simp_all add: max_lag_of_def sampling_time_def Let_def)
  show ?thesis
    using a b c get_gkma_kappa_returns(2) [OF assms] get_gkma_kappa_returns(6) [OF assms]
    by simp
qed

text \<open>
  C1 at a single sample (\<open>dt = 1\<close>, \<open>sample_interval = 1\<close>, \<open>nsamples = 1\<close>, directions \<open>z\<close>,
  no \<open>max_tau\<close>), where \<open>max_lag = 0\<close> and the axis has the one point 0. Without a mode bin
  the call returns and \<open>tau\<close> is the zero-dimensional \<open>0.0\<close>, not the array \<open>[0.0]\<close> of
  length \<open>max_lag + 1 = 1\<close>. With one mode bin the call does not return: the integration of
  the bin raises \<^verbatim>\<open>ValueError\<close> on the zero-dimensional \<open>tau\<close>.
\<close>

theorem tau_axis_single_sample:
  "(\<exists>r. fst (get_gkma_kappa corr_spec get_direction_spec no_bins 0 1 1 1 300 1 None ''z'' True) = Inr r)
   \<and> max_lag_of 1 1 1 None = 0
   \<and> snd (get_gkma_kappa corr_spec get_direction_spec no_bins 0 1 1 1 300 1 None ''z'' True) ''tau''
       = Some (Arr0 0)
   \<and> snd (get_gkma_kappa corr_spec get_direction_spec no_bins 0 1 1 1 300 1 None ''z'' True) ''tau''
       \<noteq> Some (Arr1 (map (\<lambda>k. real k * (real_of_int 1 * 1) / 10 ^ 6)
                        [0..<nat (max_lag_of 1 1 1 None + 1)]))
   \<and> fst (get_gkma_kappa corr_spec get_direction_spec one_bin 1 1 1 1 300 1 None ''z'' True)
       = Inl (ValueError ''If given, shape of x must be 1-D or the same as y.'')"
proof -
  define G where
    "G = get_gkma_kappa corr_spec get_direction_spec no_bins 0 1 1 1 300 1 None ''z'' True"
  define H where
    "H = get_gkma_kappa corr_spec get_direction_spec one_bin 1 1 1 1 300 1 None ''z'' True"
  have "\<not> isl (fst G)" unfolding G_def by code_simp
  then have r: "\<exists>r. fst G = Inr r" by (rule iffD1 [OF returns_iff])
  have ml: "max_lag_of 1 1 1 None = 0" by (simp add: max_lag_of_def sampling_time_def)
  have t: "snd G ''tau'' = Some (Arr0 0)" unfolding G_def by code_simp
  have n: "snd G ''tau'' \<noteq> Some (Arr1 xs)" for xs using t by simp
  have "case fst H of
          Inl e \<Rightarrow> e = ValueError ''If given, shape of x must be 1-D or the same as y.''
        | Inr v \<Rightarrow> False"
    unfolding H_def by code_simp
  then have h: "fst H = Inl (ValueError ''If given, shape of x must be 1-D or the same as y.'')"
    by (cases "fst H") simp_all
  have "(\<exists>r. fst G = Inr r) \<and> max_lag_of 1 1 1 None = 0 \<and> snd G ''tau'' = Some (Arr0 0)
          \<and> snd G ''tau'' \<noteq> Some (Arr1 (map (\<lambda>k. real k * (real_of_int 1 * 1) / 10 ^ 6)
                                           [0..<nat (max_lag_of 1 1 1 None + 1)]))
          \<and> fst H = Inl (ValueError ''If given, shape of x must be 1-D or the same as y.'')"
    using r ml t n h by (intro conjI)
  then show ?thesis unfolding G_def H_def .
qed

subsection \<open>The accumulated conductivity at lag 0\<close>

text \<open>
  C2: in a call that returns, for every requested direction and every mode bin \<open>m\<close>, each
  accumulated-conductivity array of the direction (\<^verbatim>\<open>kmxi\<close> and \<^verbatim>\<open>kmxo\<close>, \<^verbatim>\<open>kmyi\<close> and
  \<^verbatim>\<open>kmyo\<close>, \<^verbatim>\<open>kmz\<close>) is in the dataset with one row per bin, the row of \<open>m\<close> has the
  \<open>max_lag + 1\<close> lags, at least one, and its entry at lag 0 is 0, whatever the heat currents
  and whatever the correlator returns.
\<close>

theorem conductivity_zero_at_lag_zero:
  assumes "fst (get_gkma_kappa corr get_direction data nbins nsamples dt sample_interval T vol
                  max_tau directions return_data) = Inr r"
    and "get_direction directions = Inr dirs"
    and "(CHR ''x'' \<in> set dirs \<and> (key = ''kmxi'' \<or> key = ''kmxo''))
           \<or> (CHR ''y'' \<in> set dirs \<and> (key = ''kmyi'' \<or> key = ''kmyo''))
           \<or> (CHR ''z'' \<in> set dirs \<and> key = ''kmz'')"
    and "int m < nbins"
  shows "\<exists>A. snd (get_gkma_kappa corr get_direction data nbins nsamples dt sample_interval T vol
                    max_tau directions return_data) key = Some (Arr2 A)
           \<and> int (length A) = nbins
           \<and> int (length (A ! m)) = max_lag_of nsamples dt sample_interval max_tau + 1
           \<and> 0 < length (A ! m)
           \<and> A ! m ! 0 = 0"
proof -
  let ?d' = "snd (get_gkma_kappa corr get_direction data nbins nsamples dt sample_interval T vol
                    max_tau directions return_data)"
  let ?ml = "max_lag_of nsamples dt sample_interval max_tau"
  have pos: "0 < nbins" using assms(4) by simp
  have dir: "CHR ''x'' \<in> set dirs \<or> CHR ''y'' \<in> set dirs \<or> CHR ''z'' \<in> set dirs"
    using assms(3) by blast
  have ml: "1 \<le> ?ml" using get_gkma_kappa_returns(6) [OF assms(1,2) pos dir] .
  have "zero_seeded (nat nbins) (nat (?ml + 1)) key ?d'"
    using assms(3) get_gkma_kappa_returns(3) [OF assms(1,2)]
      get_gkma_kappa_returns(4) [OF assms(1,2)] get_gkma_kappa_returns(5) [OF assms(1,2)]
    by blast
  then obtain A where A: "?d' key = Some (Arr2 A)" "length A = nat nbins"
      "\<forall>row\<in>set A. length row = nat (?ml + 1) \<and> (0 < nat (?ml + 1) \<longrightarrow> row ! 0 = 0)"
    by (auto simp: zero_seeded_def)
  have "m < length A" using A(2) assms(4) by simp
  then have "A ! m \<in> set A" by simp
  then have "length (A ! m) = nat (?ml + 1)" "A ! m ! 0 = 0" using A(3) ml by auto
  then show ?thesis using A(1,2) pos ml by auto
qed

theorem conductivity_zero_at_lag_zero_witness:
  "\<exists>A. snd (get_gkma_kappa corr_spec get_direction_spec end_to_end 2 5 1 1 300 1 None ''z'' True) ''kmz''
          = Some (Arr2 A)
     \<and> int (length A) = 2
     \<and> int (length (A ! 1)) = 5
     \<and> 0 < length (A ! 1)
     \<and> A ! 1 ! 0 = 0"
proof -
  define G where
    "G = get_gkma_kappa corr_spec get_direction_spec end_to_end 2 5 1 1 300 1 None ''z'' True"
  have "\<not> isl (fst G)" unfolding G_def by code_simp
  then have "\<exists>r. fst G = Inr r" by (rule iffD1 [OF returns_iff])
  then obtain r where r: "fst G = Inr r" ..
  have d: "get_direction_spec ''z'' = Inr ''z''" by (simp add: get_direction_spec_def)
  have k: "(CHR ''x'' \<in> set ''z'' \<and> (''kmz'' = ''kmxi'' \<or> ''kmz'' = ''kmxo''))
           \<or> (CHR ''y'' \<in> set ''z'' \<and> (''kmz'' = ''kmyi'' \<or> ''kmz'' = ''kmyo''))
           \<or> (CHR ''z'' \<in> set ''z'' \<and> ''kmz'' = ''kmz'')"
    by simp
  have m: "int 1 < 2" by simp
  have ml: "max_lag_of 5 1 1 None + 1 = 5" by (simp add: max_lag_of_def sampling_time_def)
  have "\<exists>A. snd G ''kmz'' = Some (Arr2 A) \<and> int (length A) = 2
          \<and> int (length (A ! 1)) = max_lag_of 5 1 1 None + 1 \<and> 0 < length (A ! 1) \<and> A ! 1 ! 0 = 0"
    unfolding G_def by (rule conductivity_zero_at_lag_zero [OF r [unfolded G_def] d k m])
  then show ?thesis unfolding G_def ml .
qed


subsection \<open>Errors: a missing channel, a negative lag\<close>

lemma linspace_total:
  assumes "- 1 \<le> ml"
  shows "linspace 0 (real_of_int ml * srate) (ml + 1) = Inr (map (\<lambda>k. real k * srate) [0..<nat (ml + 1)])"
proof (cases "ml = 0")
  case True
  then show ?thesis by (simp add: linspace_def)
next
  case False
  have "0 + real k * ((real_of_int ml * srate - 0) / real_of_int (ml + 1 - 1)) = real k * srate" for k
    using False by simp
  then show ?thesis using assms False by (simp add: linspace_def)
qed

lemma get_gkma_kappa_body:
  assumes "scale_gpumd_tc vol T = Inr scale" "sampling_time sample_interval dt \<noteq> 0"
    and "- 1 \<le> max_lag_of nsamples dt sample_interval max_tau"
    and "get_direction directions = Inr dirs"
  shows "get_gkma_kappa corr get_direction data nbins nsamples dt sample_interval T vol max_tau
           directions return_data
         = (case run [guarded (CHR ''x'' \<in> set dirs)
                        (x_direction corr nbins (max_lag_of nsamples dt sample_interval max_tau + 1)
                           (max_lag_of nsamples dt sample_interval max_tau) scale),
                      guarded (CHR ''y'' \<in> set dirs)
                        (y_direction corr nbins (max_lag_of nsamples dt sample_interval max_tau + 1)
                           (max_lag_of nsamples dt sample_interval max_tau) scale),
                      guarded (CHR ''z'' \<in> set dirs)
                        (z_direction corr nbins (max_lag_of nsamples dt sample_interval max_tau + 1)
                           (max_lag_of nsamples dt sample_interval max_tau) scale),
                      rescale_tau]
                  (data(''tau'' \<mapsto> squeeze (map (\<lambda>k. real k * sampling_time sample_interval dt)
                                   [0..<nat (max_lag_of nsamples dt sample_interval max_tau + 1)]))) of
              (Inl e, d') \<Rightarrow> (Inl e, d')
            | (Inr u, d') \<Rightarrow> (Inr (if return_data then Some d' else None), d'))"
  using assms(1,2,4) linspace_total [OF assms(3), of "sampling_time sample_interval dt"]
  by (simp add: get_gkma_kappa_def Let_def)

lemma run_first_raises:
  assumes "s d = (Inl e, d)"
  shows "run (s # ss) d = (Inl e, d)"
  using assms by simp

lemma run_first_returns:
  assumes "fst (s d) = Inr u"
  shows "run (s # ss) d = run ss (snd (s d))"
proof -
  obtain q d1 where s: "s d = (q, d1)" by (cases "s d")
  show ?thesis using assms s by (cases q) simp_all
qed

lemma in_out_direction_missing:
  assumes "d ji = None \<or> d jo = None"
  shows "in_out_direction corr missing ji jo ci co ki ko nbins sz max_lag scale d
           = (Inl (ValueError missing), d)"
  using assms by (auto simp: in_out_direction_def)

lemma single_direction_missing:
  assumes "d jm = None"
  shows "single_direction corr missing jm cm km nbins sz max_lag scale d = (Inl (ValueError missing), d)"
  using assms by (simp add: single_direction_def)

text \<open>
  C5, as amended. Let the unit scaler, the sampling time, the maximal lag (at least \<open>-1\<close>)
  and the direction selector be accepted; the lag-time axis \<open>tau\<close> is then already in the
  dataset. If a channel of the x direction is missing and x is requested, the call raises
  ``x direction data is missing'' before an array of the x direction is allocated: the
  dataset is the input with \<open>tau\<close> added. If a channel of the y direction is missing, y is
  requested and the x block has run without error, the call raises ``y direction data is
  missing'' and the dataset is as the x block has left it, with the arrays of the x
  direction when x was requested; likewise for z after the x and y blocks.
\<close>

theorem missing_channel_raises:
  fixes data :: dataset and corr :: correlator and nbins :: int
  assumes "scale_gpumd_tc vol T = Inr scale" "sampling_time sample_interval dt \<noteq> 0"
    and "- 1 \<le> max_lag_of nsamples dt sample_interval max_tau"
    and "get_direction directions = Inr dirs"
  defines "ml \<equiv> max_lag_of nsamples dt sample_interval max_tau"
  defines "d0 \<equiv> data(''tau'' \<mapsto> squeeze (map (\<lambda>k. real k * sampling_time sample_interval dt)
                                    [0..<nat (max_lag_of nsamples dt sample_interval max_tau + 1)]))"
  defines "bx \<equiv> guarded (CHR ''x'' \<in> set dirs) (x_direction corr nbins (ml + 1) ml scale)"
  defines "by \<equiv> guarded (CHR ''y'' \<in> set dirs) (y_direction corr nbins (ml + 1) ml scale)"
  shows "(CHR ''x'' \<in> set dirs \<and> (data ''jmxi'' = None \<or> data ''jmxo'' = None)
            \<longrightarrow> get_gkma_kappa corr get_direction data nbins nsamples dt sample_interval T vol
                  max_tau directions return_data
                = (Inl (ValueError ''x direction data is missing''), d0))
         \<and> (CHR ''y'' \<in> set dirs \<and> (data ''jmyi'' = None \<or> data ''jmyo'' = None)
              \<and> fst (bx d0) = Inr ()
            \<longrightarrow> get_gkma_kappa corr get_direction data nbins nsamples dt sample_interval T vol
                  max_tau directions return_data
                = (Inl (ValueError ''y direction data is missing''), snd (bx d0)))
         \<and> (CHR ''z'' \<in> set dirs \<and> data ''jmz'' = None
              \<and> fst (bx d0) = Inr () \<and> fst (by (snd (bx d0))) = Inr ()
            \<longrightarrow> get_gkma_kappa corr get_direction data nbins nsamples dt sample_interval T vol
                  max_tau directions return_data
                = (Inl (ValueError ''z direction data is missing''), snd (by (snd (bx d0)))))"
proof -
  let ?G = "get_gkma_kappa corr get_direction data nbins nsamples dt sample_interval T vol
              max_tau directions return_data"
  define bz where "bz = guarded (CHR ''z'' \<in> set dirs) (z_direction corr nbins (ml + 1) ml scale)"
  have G: "?G = (case run [bx, by, bz, rescale_tau] d0 of
                   (Inl e, d') \<Rightarrow> (Inl e, d')
                 | (Inr u, d') \<Rightarrow> (Inr (if return_data then Some d' else None), d'))"
    unfolding bx_def by_def bz_def d0_def ml_def
    by (rule get_gkma_kappa_body) (rule assms(1) assms(2) assms(3) assms(4))+
  have raised: "?G = (Inl e, d)" if "run [bx, by, bz, rescale_tau] d0 = (Inl e, d)" for e d
    using that G by simp
  have kx: "snd (bx d0) key = d0 key" if "key \<notin> {''corr_xmi_x'', ''corr_xmo_x'', ''kmxi'', ''kmxo''}"
    for key
    unfolding bx_def using keepsD [OF keeps_x_direction [OF that]] .
  have ky: "snd (by d) key = d key" if "key \<notin> {''corr_ymi_y'', ''corr_ymo_y'', ''kmyi'', ''kmyo''}"
    for key d
    unfolding by_def using keepsD [OF keeps_y_direction [OF that]] .
  have x: "?G = (Inl (ValueError ''x direction data is missing''), d0)"
    if "CHR ''x'' \<in> set dirs \<and> (data ''jmxi'' = None \<or> data ''jmxo'' = None)"
  proof -
    have "d0 ''jmxi'' = None \<or> d0 ''jmxo'' = None" using that by (auto simp: d0_def)
    then have "bx d0 = (Inl (ValueError ''x direction data is missing''), d0)"
      using that in_out_direction_missing by (simp add: bx_def guarded_def x_direction_def)
    then show ?thesis by (intro raised run_first_raises)
  qed
  have y: "?G = (Inl (ValueError ''y direction data is missing''), snd (bx d0))"
    if "CHR ''y'' \<in> set dirs \<and> (data ''jmyi'' = None \<or> data ''jmyo'' = None) \<and> fst (bx d0) = Inr ()"
  proof -
    have "snd (bx d0) ''jmyi'' = None \<or> snd (bx d0) ''jmyo'' = None"
      using that kx [of "''jmyi''"] kx [of "''jmyo''"] by (auto simp: d0_def)
    then have "by (snd (bx d0)) = (Inl (ValueError ''y direction data is missing''), snd (bx d0))"
      using that in_out_direction_missing by (simp add: by_def guarded_def y_direction_def)
    then have "run [by, bz, rescale_tau] (snd (bx d0))
                 = (Inl (ValueError ''y direction data is missing''), snd (bx d0))"
      by (rule run_first_raises)
    moreover have "run [bx, by, bz, rescale_tau] d0 = run [by, bz, rescale_tau] (snd (bx d0))"
      using that by (intro run_first_returns) simp
    ultimately show ?thesis by (intro raised) simp
  qed
  have z: "?G = (Inl (ValueError ''z direction data is missing''), snd (by (snd (bx d0))))"
    if "CHR ''z'' \<in> set dirs \<and> data ''jmz'' = None
          \<and> fst (bx d0) = Inr () \<and> fst (by (snd (bx d0))) = Inr ()"
  proof -
    let ?d2 = "snd (by (snd (bx d0)))"
    have "?d2 ''jmz'' = None"
      using that kx [of "''jmz''"] ky [of "''jmz''" "snd (bx d0)"] by (auto simp: d0_def)
    then have "bz ?d2 = (Inl (ValueError ''z direction data is missing''), ?d2)"
      using that single_direction_missing by (simp add: bz_def guarded_def z_direction_def)
    then have "run [bz, rescale_tau] ?d2 = (Inl (ValueError ''z direction data is missing''), ?d2)"
      by (rule run_first_raises)
    moreover have "run [by, bz, rescale_tau] (snd (bx d0)) = run [bz, rescale_tau] ?d2"
      using that by (intro run_first_returns) simp
    moreover have "run [bx, by, bz, rescale_tau] d0 = run [by, bz, rescale_tau] (snd (bx d0))"
      using that by (intro run_first_returns) simp
    ultimately show ?thesis by (intro raised) simp
  qed
  show ?thesis using x y z by blast
qed

theorem missing_channel_raises_witness:
  "get_gkma_kappa corr_spec get_direction_spec lacking_jmxi 1 3 1 1 300 1 None ''x'' True
     = (Inl (ValueError ''x direction data is missing''), lacking_jmxi(''tau'' \<mapsto> Arr1 [0, 1, 2]))"
proof -
  obtain scale where sc: "scale_gpumd_tc 1 300 = Inr scale"
    using scale_gpumd_tc_pos [of 300 1] by auto
  have sr: "sampling_time 1 1 \<noteq> 0" by (simp add: sampling_time_def)
  have lb: "- 1 \<le> max_lag_of 3 1 1 None" by (simp add: max_lag_of_def sampling_time_def)
  have d: "get_direction_spec ''x'' = Inr ''x''" by (simp add: get_direction_spec_def)
  have h: "CHR ''x'' \<in> set ''x'' \<and> (lacking_jmxi ''jmxi'' = None \<or> lacking_jmxi ''jmxo'' = None)"
    by (simp add: lacking_jmxi_def)
  have sq: "squeeze (map (\<lambda>k. real k * sampling_time 1 1) [0..<nat (max_lag_of 3 1 1 None + 1)])
              = Arr1 [0, 1, 2]"
    by code_simp
  have "get_gkma_kappa corr_spec get_direction_spec lacking_jmxi 1 3 1 1 300 1 None ''x'' True
          = (Inl (ValueError ''x direction data is missing''),
             lacking_jmxi(''tau'' \<mapsto> squeeze (map (\<lambda>k. real k * sampling_time 1 1)
                                          [0..<nat (max_lag_of 3 1 1 None + 1)])))"
    by (rule missing_channel_raises
              [where vol = 1 and T = 300 and scale = scale and sample_interval = 1 and dt = 1
                 and nsamples = 3 and max_tau = None and get_direction = get_direction_spec
                 and directions = "''x''" and dirs = "''x''" and data = lacking_jmxi
                 and corr = corr_spec and nbins = 1 and return_data = True,
               THEN conjunct1, rule_format])
       (rule sc sr lb d h)+
  then show ?thesis by (simp only: sq)
qed

text \<open>
  C5 as stated fails: for a dataset lacking \<^verbatim>\<open>jmxi\<close> with directions \<open>x\<close> the error is
  raised after the lag-time axis has been built and added to the dataset.
\<close>

theorem missing_channel_counterexample:
  "fst (get_gkma_kappa corr_spec get_direction_spec lacking_jmxi 1 3 1 1 300 1 None ''x'' True)
     = Inl (ValueError ''x direction data is missing'')
   \<and> lacking_jmxi ''tau'' = None
   \<and> snd (get_gkma_kappa corr_spec get_direction_spec lacking_jmxi 1 3 1 1 300 1 None ''x'' True) ''tau''
       = Some (Arr1 [0, 1, 2])"
proof -
  define G where
    "G = get_gkma_kappa corr_spec get_direction_spec lacking_jmxi 1 3 1 1 300 1 None ''x'' True"
  have "case fst G of Inl e \<Rightarrow> e = ValueError ''x direction data is missing'' | Inr r \<Rightarrow> False"
    unfolding G_def by code_simp
  then have a: "fst G = Inl (ValueError ''x direction data is missing'')"
    by (cases "fst G") simp_all
  have b: "lacking_jmxi ''tau'' = None" by (simp add: lacking_jmxi_def)
  have c: "snd G ''tau'' = Some (Arr1 [0, 1, 2])" unfolding G_def by code_simp
  show ?thesis unfolding G_def [symmetric] using a b c by (intro conjI)
qed

lemma preserves_entry:
  assumes "keeps key s"
  shows "preserves (\<lambda>d. d key = v) s"
  using assms by (simp add: preserves_def keeps_def)

lemma preserves_empty_tau: "preserves (\<lambda>d. d ''tau'' = Some (Arr1 [])) rescale_tau"
proof -
  have "snd (rescale_tau d) ''tau'' = Some (Arr1 [])" if "d ''tau'' = Some (Arr1 [])" for d
    using that rescale_tau_success [of d "Arr1 []"] by simp
  then show ?thesis by (simp add: preserves_def)
qed

lemma get_gkma_kappa_snd:
  assumes "scale_gpumd_tc vol T = Inr scale" "sampling_time sample_interval dt \<noteq> 0"
    and "- 1 \<le> max_lag_of nsamples dt sample_interval max_tau"
    and "get_direction directions = Inr dirs"
  shows "snd (get_gkma_kappa corr get_direction data nbins nsamples dt sample_interval T vol max_tau
                directions return_data)
         = snd (run [guarded (CHR ''x'' \<in> set dirs)
                        (x_direction corr nbins (max_lag_of nsamples dt sample_interval max_tau + 1)
                           (max_lag_of nsamples dt sample_interval max_tau) scale),
                      guarded (CHR ''y'' \<in> set dirs)
                        (y_direction corr nbins (max_lag_of nsamples dt sample_interval max_tau + 1)
                           (max_lag_of nsamples dt sample_interval max_tau) scale),
                      guarded (CHR ''z'' \<in> set dirs)
                        (z_direction corr nbins (max_lag_of nsamples dt sample_interval max_tau + 1)
                           (max_lag_of nsamples dt sample_interval max_tau) scale),
                      rescale_tau]
                  (data(''tau'' \<mapsto> squeeze (map (\<lambda>k. real k * sampling_time sample_interval dt)
                                   [0..<nat (max_lag_of nsamples dt sample_interval max_tau + 1)]))))"
proof -
  note body = get_gkma_kappa_body [where scale = scale and dirs = dirs and vol = vol and T = T
      and sample_interval = sample_interval and dt = dt and nsamples = nsamples
      and max_tau = max_tau and get_direction = get_direction and directions = directions
      and corr = corr and data = data and nbins = nbins and return_data = return_data]
  have b: "get_gkma_kappa corr get_direction data nbins nsamples dt sample_interval T vol max_tau
             directions return_data
           = (case run [guarded (CHR ''x'' \<in> set dirs)
                        (x_direction corr nbins (max_lag_of nsamples dt sample_interval max_tau + 1)
                           (max_lag_of nsamples dt sample_interval max_tau) scale),
                      guarded (CHR ''y'' \<in> set dirs)
                        (y_direction corr nbins (max_lag_of nsamples dt sample_interval max_tau + 1)
                           (max_lag_of nsamples dt sample_interval max_tau) scale),
                      guarded (CHR ''z'' \<in> set dirs)
                        (z_direction corr nbins (max_lag_of nsamples dt sample_interval max_tau + 1)
                           (max_lag_of nsamples dt sample_interval max_tau) scale),
                      rescale_tau]
                  (data(''tau'' \<mapsto> squeeze (map (\<lambda>k. real k * sampling_time sample_interval dt)
                                   [0..<nat (max_lag_of nsamples dt sample_interval max_tau + 1)]))) of
              (Inl e, d') \<Rightarrow> (Inl e, d')
            | (Inr u, d') \<Rightarrow> (Inr (if return_data then Some d' else None), d'))"
    by (rule body) (rule assms(1) assms(2) assms(3) assms(4))+
  show ?thesis unfolding b by (simp split: prod.splits sum.splits)
qed

text \<open>
  C6, as amended. The code does not check the lag: with the unit scaler and the sampling
  time accepted, a maximal lag below \<open>-1\<close> makes \<^verbatim>\<open>np.linspace\<close> raise its \<^verbatim>\<open>ValueError\<close>,
  before the dataset is touched; a maximal lag of \<open>-1\<close> raises nothing there, and whatever
  the call does next, it leaves the empty lag-time axis in the dataset. A negative
  \<open>max_tau\<close> gives a negative maximal lag when the sampling time is positive.
\<close>

theorem negative_max_lag:
  assumes "scale_gpumd_tc vol T = Inr scale" "sampling_time sample_interval dt \<noteq> 0"
  shows "(max_lag_of nsamples dt sample_interval max_tau < - 1
            \<longrightarrow> get_gkma_kappa corr get_direction data nbins nsamples dt sample_interval T vol
                  max_tau directions return_data
                = (Inl (ValueError ''Number of samples must be non-negative.''), data))
         \<and> (max_lag_of nsamples dt sample_interval max_tau = - 1
            \<longrightarrow> snd (get_gkma_kappa corr get_direction data nbins nsamples dt sample_interval T vol
                       max_tau directions return_data) ''tau'' = Some (Arr1 []))
         \<and> (\<forall>t. max_tau = Some t \<and> t < 0 \<and> 0 < sampling_time sample_interval dt
              \<longrightarrow> max_lag_of nsamples dt sample_interval max_tau < 0)"
proof (intro conjI impI allI)
  let ?ml = "max_lag_of nsamples dt sample_interval max_tau"
  let ?G = "get_gkma_kappa corr get_direction data nbins nsamples dt sample_interval T vol
              max_tau directions return_data"
  show "?G = (Inl (ValueError ''Number of samples must be non-negative.''), data)" if "?ml < - 1"
    using that assms by (simp add: get_gkma_kappa_def linspace_def Let_def)
  show "snd ?G ''tau'' = Some (Arr1 [])" if m: "?ml = - 1"
  proof (cases "get_direction directions")
    case (Inl e)
    then show ?thesis
      using m assms by (simp add: get_gkma_kappa_def linspace_def Let_def squeeze_def)
  next
    case (Inr dirs)
    let ?P = "\<lambda>d. d ''tau'' = Some (Arr1 [])"
    let ?ss = "[guarded (CHR ''x'' \<in> set dirs) (x_direction corr nbins (?ml + 1) ?ml scale),
                guarded (CHR ''y'' \<in> set dirs) (y_direction corr nbins (?ml + 1) ?ml scale),
                guarded (CHR ''z'' \<in> set dirs) (z_direction corr nbins (?ml + 1) ?ml scale),
                rescale_tau]"
    let ?d0 = "data(''tau'' \<mapsto> squeeze (map (\<lambda>k. real k * sampling_time sample_interval dt)
                                     [0..<nat (?ml + 1)]))"
    have lb: "- 1 \<le> ?ml" using m by simp
    have e: "snd ?G = snd (run ?ss ?d0)"
      by (rule get_gkma_kappa_snd) (rule assms(1) assms(2) lb Inr)+
    have p0: "?P ?d0" using m by (simp add: squeeze_def)
    have "\<forall>s\<in>set ?ss. preserves ?P s"
      using preserves_empty_tau
        preserves_entry [OF keeps_x_direction, of "''tau''"]
        preserves_entry [OF keeps_y_direction, of "''tau''"]
        preserves_entry [OF keeps_z_direction, of "''tau''"]
      by simp
    then have "?P (snd (run ?ss ?d0))" using p0 by (rule run_preserves)
    then show ?thesis using e by simp
  qed
next
  fix t
  assume h: "max_tau = Some t \<and> t < 0 \<and> 0 < sampling_time sample_interval dt"
  then have "t * 10 ^ 6 / sampling_time sample_interval dt < 0"
    by (simp add: divide_neg_pos mult_neg_pos)
  then have "\<lfloor>t * 10 ^ 6 / sampling_time sample_interval dt\<rfloor> < 0" by linarith
  then show "max_lag_of nsamples dt sample_interval max_tau < 0"
    using h by (simp add: max_lag_of_def Let_def)
qed

theorem negative_max_lag_witness:
  "max_lag_of 5 1 1 (Some (- 1)) < - 1
   \<and> get_gkma_kappa corr_spec get_direction_spec end_to_end 2 5 1 1 300 1 (Some (- 1)) ''z'' True
       = (Inl (ValueError ''Number of samples must be non-negative.''), end_to_end)
   \<and> max_lag_of 5 1 1 (Some (- 1 / 10 ^ 7)) = - 1
   \<and> snd (get_gkma_kappa corr_spec get_direction_spec end_to_end 2 5 1 1 300 1 (Some (- 1 / 10 ^ 7))
             ''z'' True) ''tau'' = Some (Arr1 [])"
proof -
  obtain scale where sc: "scale_gpumd_tc 1 300 = Inr scale"
    using scale_gpumd_tc_pos [of 300 1] by auto
  have sr: "sampling_time 1 1 \<noteq> 0" by (simp add: sampling_time_def)
  have a: "max_lag_of 5 1 1 (Some (- 1)) < - 1" by code_simp
  have b: "max_lag_of 5 1 1 (Some (- 1 / 10 ^ 7)) = - 1" by code_simp
  note t1 = negative_max_lag [where vol = 1 and T = 300 and scale = scale and sample_interval = 1
      and dt = 1 and nsamples = 5 and max_tau = "Some (- 1)" and corr = corr_spec
      and get_direction = get_direction_spec and data = end_to_end and nbins = 2
      and directions = "''z''" and return_data = True, THEN conjunct1, rule_format]
  note t2 = negative_max_lag [where vol = 1 and T = 300 and scale = scale and sample_interval = 1
      and dt = 1 and nsamples = 5 and max_tau = "Some (- 1 / 10 ^ 7)" and corr = corr_spec
      and get_direction = get_direction_spec and data = end_to_end and nbins = 2
      and directions = "''z''" and return_data = True, THEN conjunct2, THEN conjunct1, rule_format]
  have c: "get_gkma_kappa corr_spec get_direction_spec end_to_end 2 5 1 1 300 1 (Some (- 1)) ''z'' True
             = (Inl (ValueError ''Number of samples must be non-negative.''), end_to_end)"
    by (rule t1) (rule sc sr a)+
  have d: "snd (get_gkma_kappa corr_spec get_direction_spec end_to_end 2 5 1 1 300 1
                  (Some (- 1 / 10 ^ 7)) ''z'' True) ''tau'' = Some (Arr1 [])"
    by (rule t2) (rule sc sr b)+
  show ?thesis using a b c d by (intro conjI)
qed

text \<open>
  C6 as stated fails: a \<open>max_tau\<close> of \<open>-10\<^sup>-\<^sup>7\<close> ns, a tenth of a femtosecond below zero,
  gives the maximal lag \<open>-1\<close>, and on a dataset without mode bins the call returns: no
  error is raised at all.
\<close>

theorem negative_max_lag_counterexample:
  "- 1 / 10 ^ 7 < (0::real)
   \<and> max_lag_of 5 1 1 (Some (- 1 / 10 ^ 7)) = - 1
   \<and> (\<exists>r. fst (get_gkma_kappa corr_spec get_direction_spec no_bins 0 5 1 1 300 1
                    (Some (- 1 / 10 ^ 7)) ''z'' True) = Inr r)
   \<and> snd (get_gkma_kappa corr_spec get_direction_spec no_bins 0 5 1 1 300 1
             (Some (- 1 / 10 ^ 7)) ''z'' True) ''tau'' = Some (Arr1 [])"
proof -
  define G where
    "G = get_gkma_kappa corr_spec get_direction_spec no_bins 0 5 1 1 300 1 (Some (- 1 / 10 ^ 7)) ''z'' True"
  have a: "- 1 / 10 ^ 7 < (0::real)" by simp
  have b: "max_lag_of 5 1 1 (Some (- 1 / 10 ^ 7)) = - 1" by code_simp
  have "\<not> isl (fst G)" unfolding G_def by code_simp
  then have c: "\<exists>r. fst G = Inr r" by (rule iffD1 [OF returns_iff])
  have d: "snd G ''tau'' = Some (Arr1 [])" unfolding G_def by code_simp
  show ?thesis unfolding G_def [symmetric] using a b c d by (intro conjI)
qed

end
